theory Spec2Isabelle
  imports Complex_Main "HOL-Library.Char_ord" "HOL-Library.List_Lexorder" "HOL-Library.Product_Lexorder"
begin

section \<open>Calendar dates and times of day\<close>

text \<open>
  The program works on the values of Python's \<^verbatim>\<open>datetime\<close> module. A \<^verbatim>\<open>date\<close> is a
  proleptic Gregorian year, month and day with \<^verbatim>\<open>1 <= year <= 9999\<close>; arithmetic that
  leaves this range raises \<^verbatim>\<open>OverflowError\<close>, and \<^verbatim>\<open>replace\<close> to a day that does not
  exist raises \<^verbatim>\<open>ValueError\<close>. A \<^verbatim>\<open>time\<close> is a time of day with microsecond
  resolution, kept here as the number of microseconds since midnight.
\<close>

datatype error = OverflowError | ValueError

record date =
  year :: int
  month :: int
  day :: int

type_synonym time = int

definition mk_date :: "int \<Rightarrow> int \<Rightarrow> int \<Rightarrow> date" where
  "mk_date y m d = \<lparr>year = y, month = m, day = d\<rparr>"

definition mk_time :: "int \<Rightarrow> int \<Rightarrow> time" where
  "mk_time h m = (h * 3600 + m * 60) * 1000000"

definition is_leap :: "int \<Rightarrow> bool" where
  "is_leap y = (y mod 4 = 0 \<and> (y mod 100 \<noteq> 0 \<or> y mod 400 = 0))"

definition days_in_month :: "int \<Rightarrow> int \<Rightarrow> int" where
  "days_in_month y m =
     (if m = 2 then (if is_leap y then 29 else 28)
      else if m = 4 \<or> m = 6 \<or> m = 9 \<or> m = 11 then 30 else 31)"

definition valid_date :: "date \<Rightarrow> bool" where
  "valid_date d = (1 \<le> year d \<and> year d \<le> 9999 \<and> 1 \<le> month d \<and> month d \<le> 12
                   \<and> 1 \<le> day d \<and> day d \<le> days_in_month (year d) (month d))"

text \<open>Month and day of a date are in range; the year may be any integer.\<close>

definition wf_md :: "date \<Rightarrow> bool" where
  "wf_md d = (1 \<le> month d \<and> month d \<le> 12 \<and> 1 \<le> day d \<and> day d \<le> days_in_month (year d) (month d))"

definition days_before_year :: "int \<Rightarrow> int" where
  "days_before_year y = (y - 1) * 365 + (y - 1) div 4 - (y - 1) div 100 + (y - 1) div 400"

fun days_before_month_nat :: "int \<Rightarrow> nat \<Rightarrow> int" where
  "days_before_month_nat y 0 = 0"
| "days_before_month_nat y (Suc k) = days_before_month_nat y k + days_in_month y (int (Suc k))"

definition days_before_month :: "int \<Rightarrow> int \<Rightarrow> int" where
  "days_before_month y m = days_before_month_nat y (nat (m - 1))"

definition toordinal :: "date \<Rightarrow> int" where
  "toordinal d = days_before_year (year d) + days_before_month (year d) (month d) + day d"

definition max_ordinal :: int where
  "max_ordinal = 3652059"

definition weekday :: "date \<Rightarrow> int" where
  "weekday d = (toordinal d + 6) mod 7"

text \<open>Python compares dates as the tuples \<^verbatim>\<open>(year, month, day)\<close>.\<close>

definition date_less :: "date \<Rightarrow> date \<Rightarrow> bool" where
  "date_less a b = (year a < year b \<or> (year a = year b \<and>
                     (month a < month b \<or> (month a = month b \<and> day a < day b))))"

definition date_le :: "date \<Rightarrow> date \<Rightarrow> bool" where
  "date_le a b = (date_less a b \<or> a = b)"

definition next_day :: "date \<Rightarrow> date" where
  "next_day d =
     (if day d < days_in_month (year d) (month d) then d\<lparr>day := day d + 1\<rparr>
      else if month d < 12 then mk_date (year d) (month d + 1) 1
      else mk_date (year d + 1) 1 1)"

definition prev_day :: "date \<Rightarrow> date" where
  "prev_day d =
     (if 1 < day d then d\<lparr>day := day d - 1\<rparr>
      else if 1 < month d then mk_date (year d) (month d - 1) (days_in_month (year d) (month d - 1))
      else mk_date (year d - 1) 12 31)"

fun forward :: "nat \<Rightarrow> date \<Rightarrow> date" where
  "forward 0 d = d"
| "forward (Suc n) d = forward n (next_day d)"

fun backward :: "nat \<Rightarrow> date \<Rightarrow> date" where
  "backward 0 d = d"
| "backward (Suc n) d = backward n (prev_day d)"

text \<open>\<^verbatim>\<open>d + timedelta(days=n)\<close>: the date \<open>n\<close> days later (earlier for negative \<open>n\<close>),
  or \<^verbatim>\<open>OverflowError\<close> when it is not between 0001-01-01 and 9999-12-31.\<close>

definition add_days :: "date \<Rightarrow> int \<Rightarrow> error + date" where
  "add_days d n =
     (let ord = toordinal d + n in
      if 1 \<le> ord \<and> ord \<le> max_ordinal
      then Inr (if 0 \<le> n then forward (nat n) d else backward (nat (- n)) d)
      else Inl OverflowError)"

text \<open>\<^verbatim>\<open>d.replace(year=y, month=m, day=k)\<close>: \<^verbatim>\<open>ValueError\<close> when the result is no date.\<close>

definition replace :: "date \<Rightarrow> int \<Rightarrow> int \<Rightarrow> int \<Rightarrow> error + date" where
  "replace d y m k = (if valid_date (mk_date y m k) then Inr (mk_date y m k) else Inl ValueError)"

text \<open>A \<^verbatim>\<open>datetime\<close> is a date with a time of day. The program makes its naive values aware
  in the configured time zone and compares them with the aware current time; the model
  keeps every instant as local wall-clock time of one zone with a fixed offset, in which
  \<^verbatim>\<open>make_aware\<close> changes nothing of an instant's position.\<close>

record datetime =
  dt_date :: date
  dt_time :: time

definition combine :: "date \<Rightarrow> time \<Rightarrow> datetime" where
  "combine d t = \<lparr>dt_date = d, dt_time = t\<rparr>"

definition micros :: "datetime \<Rightarrow> int" where
  "micros dt = toordinal (dt_date dt) * 86400000000 + dt_time dt"

text \<open>\<^verbatim>\<open>(a - b).total_seconds()\<close>. Seconds and hours are kept as exact real numbers,
  without the rounding of floating point.\<close>

definition seconds_between :: "datetime \<Rightarrow> datetime \<Rightarrow> real" where
  "seconds_between a b = real_of_int (micros a - micros b) / 1000000"

section \<open>The record store\<close>

text \<open>
  The Django models. \<open>emp_pk\<close> and \<open>ar_pk\<close> are the primary keys, \<open>ar_employee\<close>
  is the foreign key of a record to its employee. \<open>breaks\<close> is the nullable array field
  of embedded \<^verbatim>\<open>Break\<close> values.
\<close>

datatype attendance_type = IN | OUT

datatype break_type = LUNCH | OTHER

record break =
  break_type :: break_type
  break_in :: "time option"
  break_out :: "time option"

record employee =
  emp_pk :: nat
  emp_name :: string
  employee_id :: string
  last_seen :: "datetime option"

record attendance_record =
  ar_pk :: nat
  ar_employee :: nat
  ar_date :: date
  ar_time :: time
  ar_type :: attendance_type
  remarks :: string
  emotional_state :: "string option"
  breaks :: "break list option"

record location_setting =
  latitude :: real
  longitude :: real
  radius_meters :: int

record db =
  employees :: "employee list"
  records :: "attendance_record list"
  office :: "location_setting option"

text \<open>
  \<^verbatim>\<open>QuerySet.first()\<close> under the model's ordering \<^verbatim>\<open>['-date', '-time']\<close>: of the rows
  that match, one with the greatest date and, on that date, the greatest time; \<^verbatim>\<open>None\<close>
  when no row matches.
\<close>

definition comes_before :: "attendance_record \<Rightarrow> attendance_record \<Rightarrow> bool" where
  "comes_before a b = (date_less (ar_date b) (ar_date a)
                       \<or> (ar_date a = ar_date b \<and> ar_time b \<le> ar_time a))"

fun first_of :: "(attendance_record \<Rightarrow> bool) \<Rightarrow> attendance_record list \<Rightarrow> attendance_record option" where
  "first_of P [] = None"
| "first_of P (r # rs) =
     (case first_of P rs of
        None \<Rightarrow> (if P r then Some r else None)
      | Some r' \<Rightarrow> (if P r \<and> comes_before r r' then Some r else Some r'))"

definition day_record :: "db \<Rightarrow> nat \<Rightarrow> date \<Rightarrow> attendance_type \<Rightarrow> attendance_record option" where
  "day_record s e d t =
     first_of (\<lambda>r. ar_employee r = e \<and> ar_date r = d \<and> ar_type r = t) (records s)"

section \<open>Working hours\<close>

definition OUT_TIME_DEFAULT :: time where
  "OUT_TIME_DEFAULT = mk_time 19 15"

text \<open>The loop over \<^verbatim>\<open>in_record.breaks\<close>: the pair is
  \<^verbatim>\<open>(lunch_duration_seconds, other_break_duration_seconds)\<close>. A \<^verbatim>\<open>time\<close> is true in a
  condition whenever it is not \<^verbatim>\<open>None\<close>.\<close>

fun break_seconds :: "date \<Rightarrow> break list \<Rightarrow> real \<times> real \<Rightarrow> real \<times> real" where
  "break_seconds d [] acc = acc"
| "break_seconds d (b # bs) (lunch, other) =
     (case (break_in b, break_out b) of
        (Some bi, Some bo) \<Rightarrow>
          (let break_duration = seconds_between (combine d bo) (combine d bi) in
           if break_type b = LUNCH then break_seconds d bs (lunch + break_duration, other)
           else break_seconds d bs (lunch, other + break_duration))
      | _ \<Rightarrow> break_seconds d bs (lunch, other))"

text \<open>The end instant of the day's session and \<^verbatim>\<open>has_out\<close>. \<open>now\<close> is the current
  local time, whose date is \<^verbatim>\<open>timezone.localdate()\<close>.\<close>

definition session_end :: "datetime \<Rightarrow> date \<Rightarrow> attendance_record option \<Rightarrow> datetime \<times> bool" where
  "session_end now target_date out_record =
     (case out_record of
        Some out \<Rightarrow> (combine target_date (ar_time out), True)
      | None \<Rightarrow>
          if date_less target_date (dt_date now) then (combine target_date OUT_TIME_DEFAULT, False)
          else (now, False))"

text \<open>The hours of a day whose \<^verbatim>\<open>IN\<close> record, end instant and \<^verbatim>\<open>has_out\<close> are known.
  The result is \<^verbatim>\<open>(total_hours, lunch_duration_hours, other_break_duration_hours, has_out)\<close>.\<close>

definition hours_until :: "attendance_record \<Rightarrow> date \<Rightarrow> datetime \<Rightarrow> bool \<Rightarrow> real \<times> real \<times> real \<times> bool" where
  "hours_until in_record target_date end_dt has_out =
     (let (lunch_duration_seconds, other_break_duration_seconds) =
            (case breaks in_record of
               None \<Rightarrow> (0, 0)
             | Some bs \<Rightarrow> break_seconds target_date bs (0, 0));
          start_dt = combine target_date (ar_time in_record);
          total_working_seconds =
            (if micros start_dt < micros end_dt
             then seconds_between end_dt start_dt
                  - (lunch_duration_seconds + other_break_duration_seconds)
             else 0)
      in (total_working_seconds / 3600, lunch_duration_seconds / 3600,
          other_break_duration_seconds / 3600, has_out))"

definition calculate_working_hours :: "db \<Rightarrow> datetime \<Rightarrow> nat \<Rightarrow> date \<Rightarrow> real \<times> real \<times> real \<times> bool" where
  "calculate_working_hours s now e target_date =
     (case day_record s e target_date IN of
        None \<Rightarrow> (0, 0, 0, False)
      | Some in_record \<Rightarrow>
          (let (end_dt, has_out) = session_end now target_date (day_record s e target_date OUT)
           in hours_until in_record target_date end_dt has_out))"


section \<open>Period resolver\<close>

text \<open>Sequencing of computations that may raise: the first error ends the computation.\<close>

definition and_then :: "error + 'a \<Rightarrow> ('a \<Rightarrow> error + 'b) \<Rightarrow> error + 'b" where
  "and_then x f = (case x of Inl e \<Rightarrow> Inl e | Inr v \<Rightarrow> f v)"

definition get_period_dates :: "date \<Rightarrow> string \<Rightarrow> error + (date \<times> date)" where
  "get_period_dates today period =
     (if period = ''week'' then
        and_then (add_days today (- weekday today)) (\<lambda>start_date.
        and_then (add_days start_date 6) (\<lambda>end_date.
        Inr (start_date, end_date)))
      else if period = ''month'' then
        and_then (replace today (year today) (month today) 1) (\<lambda>start_date.
        and_then (replace today (year today) (month today) 28) (\<lambda>d28.
        and_then (add_days d28 4) (\<lambda>d32.
        and_then (replace d32 (year d32) (month d32) 1) (\<lambda>next_month.
        and_then (add_days next_month (- 1)) (\<lambda>end_date.
        Inr (start_date, end_date))))))
      else if period = ''year'' then
        and_then (replace today (year today) 1 1) (\<lambda>start_date.
        and_then (replace today (year today) 12 31) (\<lambda>end_date.
        Inr (start_date, end_date)))
      else Inr (today, today))"

section \<open>Attendance state machine\<close>

definition IN_TIME_END :: time where
  "IN_TIME_END = mk_time 11 0"

definition LUNCH_TIME_START :: time where
  "LUNCH_TIME_START = mk_time 13 30"

definition LUNCH_TIME_END :: time where
  "LUNCH_TIME_END = mk_time 14 30"

definition OUT_TIME_MIN :: time where
  "OUT_TIME_MIN = mk_time 19 0"

text \<open>Decimal rendering of integers, as \<^verbatim>\<open>str\<close> and f-strings give it.\<close>

fun str_nat :: "nat \<Rightarrow> string" where
  "str_nat n = (if n < 10 then [''0123456789'' ! n]
                else str_nat (n div 10) @ [''0123456789'' ! (n mod 10)])"

definition str_int :: "int \<Rightarrow> string" where
  "str_int i = (if i < 0 then CHR ''-'' # str_nat (nat (- i)) else str_nat (nat i))"

text \<open>\<^verbatim>\<open>int(x)\<close> of a float: truncation towards zero.\<close>

definition py_int :: "real \<Rightarrow> int" where
  "py_int x = (if 0 \<le> x then \<lfloor>x\<rfloor> else \<lceil>x\<rceil>)"

text \<open>
  The request body. \<open>InvalidJson\<close> is a body that \<^verbatim>\<open>json.loads\<close> rejects; otherwise the
  four keys read from it. A key that is absent or \<^verbatim>\<open>null\<close> is \<open>None\<close>. A coordinate is
  \<open>Num x\<close> when \<^verbatim>\<open>float()\<close> accepts the value and gives \<open>x\<close>, and \<open>NotNum\<close> when
  \<^verbatim>\<open>float()\<close> raises \<^verbatim>\<open>ValueError\<close> or \<^verbatim>\<open>TypeError\<close> on it.
\<close>

datatype coord = Num real | NotNum

record payload =
  recognized_name :: "string option"
  user_latitude :: "coord option"
  user_longitude :: "coord option"
  req_emotional_state :: "string option"

datatype body = InvalidJson | Payload payload

text \<open>
  \<^verbatim>\<open>geopy.distance.geodesic(a, b).meters\<close> is a parameter of the model: it gives the
  distance in meters, raises \<^verbatim>\<open>ValueError\<close> (a latitude out of range), or raises
  another exception with the given text.
\<close>

datatype geo_result = Meters real | GeoValueError | GeoError string

type_synonym geodesic = "real \<times> real \<Rightarrow> real \<times> real \<Rightarrow> geo_result"

datatype status = Success | Info | Failure | Error

datatype action = Mark_IN | Mark_OUT | BREAK_IN | BREAK_OUT

text \<open>The \<^verbatim>\<open>JsonResponse\<close>: its HTTP status code and the keys of its object; a key that
  is absent or \<^verbatim>\<open>null\<close> is \<open>None\<close>.\<close>

record response =
  status :: status
  http_code :: nat
  message :: string
  resp_name :: "string option"
  attendance_type :: "action option"
  is_late :: "bool option"

text \<open>\<^verbatim>\<open>Employee.objects.get(name=...)\<close>\<close>

datatype lookup = Found employee | DoesNotExist | MultipleObjectsReturned

definition get_employee :: "db \<Rightarrow> string \<Rightarrow> lookup" where
  "get_employee s name =
     (case filter (\<lambda>e. emp_name e = name) (employees s) of
        [] \<Rightarrow> DoesNotExist
      | [e] \<Rightarrow> Found e
      | _ \<Rightarrow> MultipleObjectsReturned)"

text \<open>\<^verbatim>\<open>employee.last_seen = timezone.now(); employee.save()\<close>: the row of that primary
  key gets the new value.\<close>

definition save_last_seen :: "db \<Rightarrow> employee \<Rightarrow> datetime \<Rightarrow> db" where
  "save_last_seen s emp now =
     s\<lparr>employees := map (\<lambda>e. if emp_pk e = emp_pk emp then e\<lparr>last_seen := Some now\<rparr> else e)
                         (employees s)\<rparr>"

text \<open>\<^verbatim>\<open>in_record.save(update_fields=['breaks'])\<close>\<close>

definition save_breaks :: "db \<Rightarrow> attendance_record \<Rightarrow> break list \<Rightarrow> db" where
  "save_breaks s in_record bs =
     s\<lparr>records := map (\<lambda>r. if ar_pk r = ar_pk in_record then r\<lparr>breaks := Some bs\<rparr> else r)
                       (records s)\<rparr>"

definition new_pk :: "attendance_record list \<Rightarrow> nat" where
  "new_pk rs = Suc (fold max (map ar_pk rs) 0)"

text \<open>\<^verbatim>\<open>AttendanceManager.create_attendance_record\<close>. A string is true in a condition when
  it is neither \<^verbatim>\<open>None\<close> nor empty.\<close>

definition create_attendance_record ::
  "db \<Rightarrow> datetime \<Rightarrow> employee \<Rightarrow> attendance_type \<Rightarrow> string \<Rightarrow> string option \<Rightarrow> db" where
  "create_attendance_record s now emp atype rem emo =
     (let record =
            \<lparr>ar_pk = new_pk (records s), ar_employee = emp_pk emp, ar_date = dt_date now,
             ar_time = dt_time now, ar_type = atype, remarks = rem,
             emotional_state =
               (if atype = IN \<and> emo \<noteq> None \<and> emo \<noteq> Some [] then emo else None),
             breaks = None\<rparr>
      in save_last_seen (s\<lparr>records := records s @ [record]\<rparr>) emp now)"

text \<open>The geofence check. It ends the request with the distance when the user is too far
  away, and otherwise gives the suffix of the eventual message.\<close>

datatype geo_check = TooFar real int | Proceed string

definition geofence :: "geodesic \<Rightarrow> location_setting option \<Rightarrow> coord option \<Rightarrow> coord option \<Rightarrow> geo_check" where
  "geofence geodesic office_setting lat lon =
     (case office_setting of
        None \<Rightarrow> Proceed '' (No office location set by admin, location check skipped).''
      | Some setting \<Rightarrow>
          (case (lat, lon) of
             (Some (Num x), Some (Num y)) \<Rightarrow>
               (case geodesic (latitude setting, longitude setting) (x, y) of
                  Meters distance_meters \<Rightarrow>
                    if distance_meters > real_of_int (radius_meters setting)
                    then TooFar distance_meters (radius_meters setting) else Proceed []
                | GeoValueError \<Rightarrow>
                    Proceed '' (Location check skipped: Invalid coordinates provided or configured).''
                | GeoError text \<Rightarrow>
                    Proceed ('' (Location check failed due to an error: '' @ text @ '').''))
           | (Some _, Some _) \<Rightarrow>
               Proceed '' (Location check skipped: Invalid coordinates provided or configured).''
           | _ \<Rightarrow> Proceed '' (Your device location not available, location check skipped).''))"

definition capitalize :: "break_type \<Rightarrow> string" where
  "capitalize t = (case t of LUNCH \<Rightarrow> ''Lunch'' | OTHER \<Rightarrow> ''Other'')"

text \<open>
  The break handling of an employee who is in, not out, before \<open>OUT_TIME_MIN\<close>.
  \<open>last_break\<close> is the last element of the sequence when the sequence is not empty and
  that element's \<^verbatim>\<open>break_in\<close> is set (a \<^verbatim>\<open>time\<close> is true in a condition whenever it
  is not \<^verbatim>\<open>None\<close>).
\<close>

definition last_break :: "break list \<Rightarrow> break option" where
  "last_break bs = (if bs \<noteq> [] \<and> break_in (last bs) \<noteq> None then Some (last bs) else None)"

definition is_lunch_time :: "time \<Rightarrow> bool" where
  "is_lunch_time current_time = (LUNCH_TIME_START \<le> current_time \<and> current_time \<le> LUNCH_TIME_END)"

definition new_break :: "time \<Rightarrow> break" where
  "new_break current_time =
     \<lparr>break_type = (if is_lunch_time current_time then LUNCH else OTHER),
      break_in = Some current_time, break_out = None\<rparr>"

text \<open>The result is the new break sequence of the \<^verbatim>\<open>IN\<close> record, the action and the
  message. Closing \<open>last_break\<close> changes the last element of the sequence in place.\<close>

definition handle_break :: "attendance_record \<Rightarrow> time \<Rightarrow> break list \<times> action \<times> string" where
  "handle_break in_record current_time =
     (let bs = (case breaks in_record of None \<Rightarrow> [] | Some bs \<Rightarrow> bs);
          closing = (case last_break bs of Some lb \<Rightarrow> break_out lb = None | None \<Rightarrow> False)
      in if closing
         then (butlast bs @ [(last bs)\<lparr>break_out := Some current_time\<rparr>], BREAK_OUT,
               capitalize (break_type (last bs)) @ '' Break Out recorded.'')
         else (bs @ [new_break current_time], BREAK_IN,
               capitalize (break_type (new_break current_time)) @ '' Break In recorded.''))"

text \<open>
  The part of \<^verbatim>\<open>mark_attendance_with_gesture\<close> after the geofence check: the action on
  today's records, the update of \<^verbatim>\<open>last_seen\<close> and the response.
\<close>

definition attendance_action :: "db \<Rightarrow> datetime \<Rightarrow> employee \<Rightarrow> string option \<Rightarrow> string \<Rightarrow> db \<times> response" where
  "attendance_action s now emp emo location_check_message_suffix =
     (let current_date = dt_date now;
          current_time = dt_time now;
          in_record = day_record s (emp_pk emp) current_date IN;
          out_record = day_record s (emp_pk emp) current_date OUT;
          (s1, message, attendance_type, is_late) =
            (case in_record of
               None \<Rightarrow>
                 (let is_late = (current_time > IN_TIME_END);
                      rem = (if is_late then ''Late entry.'' else ''On time.'')
                  in (create_attendance_record s now emp IN rem emo,
                      ''In Time. Welcome, '' @ emp_name emp @ ''!'', Some Mark_IN, is_late))
             | Some in_rec \<Rightarrow>
                 (case out_record of
                    None \<Rightarrow>
                      if current_time \<ge> OUT_TIME_MIN
                      then (create_attendance_record s now emp OUT ''Out Time.'' None,
                            ''Out Time. Goodbye, '' @ emp_name emp @ ''!'', Some Mark_OUT, False)
                      else (let (bs, act, msg) = handle_break in_rec current_time
                            in (save_breaks s in_rec bs, msg, Some act, False))
                  | Some _ \<Rightarrow>
                      (s, ''You have already checked out for today, '' @ emp_name emp @ ''.'',
                       None, False)));
          s2 = save_last_seen s1 emp now
      in case attendance_type of
           Some act \<Rightarrow>
             (s2, \<lparr>status = Success, http_code = 200,
                   message = message @ location_check_message_suffix,
                   resp_name = Some (emp_name emp), attendance_type = Some act,
                   is_late = Some is_late\<rparr>)
         | None \<Rightarrow>
             (s2, \<lparr>status = Info, http_code = 200, message = message,
                   resp_name = Some (emp_name emp), attendance_type = None,
                   is_late = Some False\<rparr>))"

text \<open>
  The view. \<open>now\<close> is the local time of the request. An exception that reaches the
  outer handler (here: more than one employee of the recognized name) gives the response
  of status 500, whose message ends with the text of the exception, shortened here;
  nothing has been written at that point.
\<close>

definition mark_attendance_with_gesture :: "geodesic \<Rightarrow> db \<Rightarrow> datetime \<Rightarrow> body \<Rightarrow> db \<times> response" where
  "mark_attendance_with_gesture geodesic s now request_body =
     (case request_body of
        InvalidJson \<Rightarrow>
          (s, \<lparr>status = Error, http_code = 400, message = ''Invalid JSON data.'',
                resp_name = None, attendance_type = None, is_late = None\<rparr>)
      | Payload data \<Rightarrow>
          (case recognized_name data of
             None \<Rightarrow>
               (s, \<lparr>status = Info, http_code = 200, message = ''Unknown person or name missing.'',
                     resp_name = Some ''Unknown'', attendance_type = None, is_late = None\<rparr>)
           | Some name \<Rightarrow>
               if name = [] \<or> name = ''Unknown'' then
                 (s, \<lparr>status = Info, http_code = 200, message = ''Unknown person or name missing.'',
                       resp_name = Some ''Unknown'', attendance_type = None, is_late = None\<rparr>)
               else
                 (case get_employee s name of
                    DoesNotExist \<Rightarrow>
                      (s, \<lparr>status = Failure, http_code = 200,
                            message = ''Employee \"'' @ name @ ''\" not found in database.'',
                            resp_name = Some name, attendance_type = None, is_late = None\<rparr>)
                  | MultipleObjectsReturned \<Rightarrow>
                      (s, \<lparr>status = Error, http_code = 500,
                            message = ''An internal server error occurred: ''
                                      @ ''get() returned more than one Employee'',
                            resp_name = None, attendance_type = None, is_late = None\<rparr>)
                  | Found emp \<Rightarrow>
                      (case geofence geodesic (office s) (user_latitude data) (user_longitude data) of
                         TooFar distance_meters radius \<Rightarrow>
                           (s, \<lparr>status = Info, http_code = 200,
                                 message = ''You are '' @ str_int (py_int distance_meters)
                                   @ ''m away from the office. Attendance can only be marked within ''
                                   @ str_int radius @ ''m.'',
                                 resp_name = Some (emp_name emp), attendance_type = None,
                                 is_late = None\<rparr>)
                       | Proceed suffix \<Rightarrow>
                           attendance_action s now emp (req_emotional_state data) suffix))))"

text \<open>
  The stores that the state machine reaches from a store without attendance records
  (any employees, any office setting), by requests of any content at any time.
\<close>

inductive reachable :: "db \<Rightarrow> bool" where
  start: "records s = [] \<Longrightarrow> reachable s"
| step: "reachable s \<Longrightarrow>
         reachable (fst (mark_attendance_with_gesture geodesic s now request_body))"

text \<open>A break is open when its \<^verbatim>\<open>break_out\<close> is not set.\<close>

definition is_open :: "break \<Rightarrow> bool" where
  "is_open b = (break_out b = None)"

text \<open>The break sequences in which only the last element may be open and every element
  has its \<^verbatim>\<open>break_in\<close>.\<close>

definition well_formed_breaks :: "break list \<Rightarrow> bool" where
  "well_formed_breaks bs =
     (list_all (\<lambda>b. \<not> is_open b) (butlast bs) \<and> list_all (\<lambda>b. break_in b \<noteq> None) bs)"

definition well_formed_store :: "db \<Rightarrow> bool" where
  "well_formed_store s =
     list_all (\<lambda>r. case breaks r of None \<Rightarrow> True | Some bs \<Rightarrow> well_formed_breaks bs) (records s)"

section \<open>Filtered summary\<close>

text \<open>\<^verbatim>\<open>strftime\<close> with the formats \<^verbatim>\<open>'%Y-%m-%d'\<close> and \<^verbatim>\<open>'%I:%M %p'\<close>.\<close>

definition pad2 :: "int \<Rightarrow> string" where
  "pad2 n = (if n < 10 then CHR ''0'' # str_nat (nat n) else str_nat (nat n))"

definition pad4 :: "int \<Rightarrow> string" where
  "pad4 n = replicate (4 - length (str_nat (nat n))) CHR ''0'' @ str_nat (nat n)"

definition strftime_date :: "date \<Rightarrow> string" where
  "strftime_date d = pad4 (year d) @ ''-'' @ pad2 (month d) @ ''-'' @ pad2 (day d)"

definition hour :: "time \<Rightarrow> int" where
  "hour t = t div 3600000000"

definition minute :: "time \<Rightarrow> int" where
  "minute t = (t div 60000000) mod 60"

definition strftime_time :: "time \<Rightarrow> string" where
  "strftime_time t =
     pad2 (if hour t mod 12 = 0 then 12 else hour t mod 12) @ '':'' @ pad2 (minute t) @ '' ''
     @ (if hour t < 12 then ''AM'' else ''PM'')"

text \<open>One dictionary of the summary.\<close>

record summary_row =
  row_employee :: employee
  row_employee_name :: string
  row_employee_id :: string
  row_date :: string
  row_in_time :: string
  row_breaks :: "break list option"
  row_out_record :: "attendance_record option"
  row_has_out :: bool

text \<open>
  The query: the \<^verbatim>\<open>IN\<close> records of the date range, joined with their employees,
  restricted to the given employee ids when the list is not empty, ordered by date and
  employee name.
\<close>

definition employee_of :: "db \<Rightarrow> attendance_record \<Rightarrow> employee option" where
  "employee_of s r = find (\<lambda>e. emp_pk e = ar_employee r) (employees s)"

definition records_with_employees ::
  "db \<Rightarrow> date \<Rightarrow> date \<Rightarrow> string list \<Rightarrow> (attendance_record \<times> employee) list" where
  "records_with_employees s start_date end_date employee_ids_list =
     sort_key (\<lambda>(r, e). ((year (ar_date r), month (ar_date r), day (ar_date r)), emp_name e))
       (concat (map (\<lambda>r. case employee_of s r of
                            None \<Rightarrow> []
                          | Some e \<Rightarrow>
                              if date_le start_date (ar_date r) \<and> date_le (ar_date r) end_date
                                 \<and> ar_type r = IN
                                 \<and> (employee_ids_list = [] \<or> employee_id e \<in> set employee_ids_list)
                              then [(r, e)] else [])
                    (records s)))"

text \<open>The loop over the records. \<open>total_hours_lt\<close> is \<^verbatim>\<open>None\<close> or a number; in the
  condition it is true when it is a number other than zero.\<close>

fun summary_rows :: "db \<Rightarrow> datetime \<Rightarrow> real option \<Rightarrow> (attendance_record \<times> employee) list
                     \<Rightarrow> summary_row list" where
  "summary_rows s now total_hours_lt [] = []"
| "summary_rows s now total_hours_lt ((record, emp) # rest) =
     (let (total_hours, lunch, other, has_out) =
            calculate_working_hours s now (emp_pk emp) (ar_date record)
      in if (case total_hours_lt of None \<Rightarrow> False | Some x \<Rightarrow> x \<noteq> 0 \<and> total_hours \<ge> x)
         then summary_rows s now total_hours_lt rest
         else \<lparr>row_employee = emp, row_employee_name = emp_name emp,
               row_employee_id = employee_id emp,
               row_date = strftime_date (ar_date record),
               row_in_time = strftime_time (ar_time record),
               row_breaks = breaks record,
               row_out_record = day_record s (emp_pk emp) (ar_date record) OUT,
               row_has_out = has_out\<rparr>
              # summary_rows s now total_hours_lt rest)"

text \<open>The two date arguments are the dates that \<^verbatim>\<open>strptime\<close> reads from the given
  strings, \<open>None\<close> for a string that it rejects.\<close>

definition get_filtered_attendance_summary ::
  "db \<Rightarrow> datetime \<Rightarrow> date option \<Rightarrow> date option \<Rightarrow> string list \<Rightarrow> real option
     \<Rightarrow> summary_row list" where
  "get_filtered_attendance_summary s now filter_start_date filter_end_date employee_ids_list
       total_hours_lt =
     (case (filter_start_date, filter_end_date) of
        (Some start_date, Some end_date) \<Rightarrow>
          summary_rows s now total_hours_lt
            (records_with_employees s start_date end_date employee_ids_list)
      | _ \<Rightarrow> [])"

section \<open>Presence trend\<close>

text \<open>
  A bucket key is kept as the list of its numbers: \<open>[y, m, d]\<close> for \<^verbatim>\<open>'%Y-%m-%d'\<close>,
  \<open>[y, m]\<close> for \<^verbatim>\<open>'%Y-%m'\<close> and \<open>[y]\<close> for \<^verbatim>\<open>'%Y'\<close>. The string of the program is
  the rendering of these numbers, and for years of four digits the order of the strings of
  one kind is the lexicographic order of the lists.
\<close>

type_synonym bucket_key = "int list"

definition bucket_key :: "string \<Rightarrow> date \<Rightarrow> bucket_key" where
  "bucket_key interval d =
     (if interval = ''daily'' then [year d, month d, day d]
      else if interval = ''monthly'' then [year d, month d]
      else [year d])"

text \<open>\<^verbatim>\<open>[current_date + timedelta(days=d) for d in range(num_days)
  if (current_date + timedelta(days=d)) <= end_date]\<close>, over the offsets given.\<close>

fun days_within :: "date \<Rightarrow> date \<Rightarrow> nat list \<Rightarrow> error + date list" where
  "days_within current_date end_date [] = Inr []"
| "days_within current_date end_date (d # ds) =
     and_then (add_days current_date (int d)) (\<lambda>day_d.
     and_then (days_within current_date end_date ds) (\<lambda>rest.
     Inr (if date_le day_d end_date then day_d # rest else rest)))"

text \<open>One pass through the loop body up to the query: \<open>(key, days_to_check, next_date)\<close>.\<close>

definition bucket :: "string \<Rightarrow> date \<Rightarrow> date \<Rightarrow> error + (bucket_key \<times> date list \<times> date)" where
  "bucket interval current_date end_date =
     (if interval = ''daily'' then
        and_then (add_days current_date 1) (\<lambda>next_date.
        Inr (bucket_key interval current_date, [current_date], next_date))
      else if interval = ''monthly'' then
        (let num_days = days_in_month (year current_date) (month current_date) in
         and_then (days_within current_date end_date [0..<nat num_days]) (\<lambda>days_to_check.
         and_then (replace current_date (year current_date) (month current_date) 28) (\<lambda>d28.
         and_then (add_days d28 4) (\<lambda>d32.
         and_then (replace d32 (year d32) (month d32) 1) (\<lambda>next_date.
         Inr (bucket_key interval current_date, days_to_check, next_date))))))
      else
        (let num_days = 365 + (if is_leap (year current_date) then 1 else 0) in
         and_then (days_within current_date end_date [0..<nat num_days]) (\<lambda>days_to_check.
         and_then (replace current_date (year current_date + 1) (month current_date)
                     (day current_date)) (\<lambda>next_date.
         Inr (bucket_key interval current_date, days_to_check, next_date)))))"

text \<open>The number of distinct employees with an \<^verbatim>\<open>IN\<close> record on one of the days.\<close>

definition present_count :: "db \<Rightarrow> date list \<Rightarrow> int" where
  "present_count s days_to_check =
     int (length (remdups (map ar_employee
            (filter (\<lambda>r. ar_date r \<in> set days_to_check \<and> ar_type r = IN) (records s)))))"

text \<open>\<^verbatim>\<open>trends_data\<close> is a \<^verbatim>\<open>defaultdict\<close> of pairs \<open>(present, absent)\<close>, kept in the
  order in which the keys came in. A key that is not there stands for \<open>(0, 0)\<close>.\<close>

type_synonym trends_data = "(bucket_key \<times> int \<times> int) list"

definition lookup_counts :: "trends_data \<Rightarrow> bucket_key \<Rightarrow> int \<times> int" where
  "lookup_counts data key = (case map_of data key of None \<Rightarrow> (0, 0) | Some c \<Rightarrow> c)"

fun add_counts :: "trends_data \<Rightarrow> bucket_key \<Rightarrow> int \<Rightarrow> int \<Rightarrow> trends_data" where
  "add_counts [] key p a = [(key, (p, a))]"
| "add_counts ((k, (p0, a0)) # data) key p a =
     (if k = key then (k, (p0 + p, a0 + a)) # data
      else (k, (p0, a0)) # add_counts data key p a)"

text \<open>The \<^verbatim>\<open>while current_date <= end_date\<close> loop. The value is \<open>None\<close> when the loop
  does not end.\<close>

partial_function (option) trends_loop ::
  "db \<Rightarrow> string \<Rightarrow> date \<Rightarrow> trends_data \<Rightarrow> date \<Rightarrow> (error + trends_data) option" where
  "trends_loop s interval end_date data current_date =
     (if date_le current_date end_date then
        (case bucket interval current_date end_date of
           Inl e \<Rightarrow> Some (Inl e)
         | Inr (key, days_to_check, next_date) \<Rightarrow>
             (let present = present_count s days_to_check;
                  absent = int (length (employees s)) - present
              in trends_loop s interval end_date (add_counts data key present absent) next_date))
      else Some (Inr data))"

text \<open>The result: the empty list when there is no employee, and otherwise the sorted
  labels with the two series.\<close>

datatype trends = No_Employees | Trends "bucket_key list" "int list" "int list"

definition get_attendance_percentage_trends ::
  "db \<Rightarrow> date \<Rightarrow> date \<Rightarrow> string \<Rightarrow> (error + trends) option" where
  "get_attendance_percentage_trends s start_date end_date interval =
     (if length (employees s) = 0 then Some (Inr No_Employees)
      else case trends_loop s interval end_date [] start_date of
             None \<Rightarrow> None
           | Some (Inl e) \<Rightarrow> Some (Inl e)
           | Some (Inr data) \<Rightarrow>
               (let labels = sort (map fst data)
                in Some (Inr (Trends labels
                                (map (\<lambda>label. fst (lookup_counts data label)) labels)
                                (map (\<lambda>label. snd (lookup_counts data label)) labels)))))"

text \<open>
  What the loop counts for a bucket, in terms of the calendar. A pass that starts at
  \<open>current_date\<close> checks the dates from \<open>current_date\<close> on, as many as the window is
  long (one day, the length of the month of \<open>current_date\<close>, or the length of its year),
  that are not after \<open>end_date\<close>.
\<close>

definition window_length :: "string \<Rightarrow> date \<Rightarrow> int" where
  "window_length interval d =
     (if interval = ''daily'' then 1
      else if interval = ''monthly'' then days_in_month (year d) (month d)
      else 365 + (if is_leap (year d) then 1 else 0))"

definition checked_day :: "string \<Rightarrow> date \<Rightarrow> date \<Rightarrow> date \<Rightarrow> bool" where
  "checked_day interval current_date end_date d =
     (valid_date d \<and> toordinal current_date \<le> toordinal d
      \<and> toordinal d < toordinal current_date + window_length interval current_date
      \<and> date_le d end_date)"

text \<open>
  The date at which the pass of a bucket starts: \<open>start_date\<close> for the bucket of
  \<open>start_date\<close>; for the later buckets the day itself (daily), the first day of the
  month (monthly), or the month and day of \<open>start_date\<close> in the year of the bucket
  (yearly).
\<close>

definition pass_start :: "string \<Rightarrow> date \<Rightarrow> bucket_key \<Rightarrow> date" where
  "pass_start interval start_date label =
     (if label = bucket_key interval start_date then start_date
      else case label of
             [y, m, d] \<Rightarrow> mk_date y m d
           | [y, m] \<Rightarrow> mk_date y m 1
           | [y] \<Rightarrow> mk_date y (month start_date) (day start_date)
           | _ \<Rightarrow> start_date)"

text \<open>A range starts on the first day of a sub-period: any day for daily buckets, the
  first of a month for monthly ones, January 1 for yearly ones.\<close>

definition aligned :: "string \<Rightarrow> date \<Rightarrow> bool" where
  "aligned interval d =
     (interval = ''daily'' \<or> (interval = ''monthly'' \<and> day d = 1)
      \<or> (interval \<noteq> ''monthly'' \<and> month d = 1 \<and> day d = 1))"

text \<open>The dates at which the passes of the loop start, and the entry that the pass
  starting at \<open>c\<close> writes.\<close>

definition later_start :: "string \<Rightarrow> date \<Rightarrow> date \<Rightarrow> bool" where
  "later_start interval start_date c =
     (bucket_key interval start_date < bucket_key interval c \<and>
      (interval = ''daily'' \<or> (interval = ''monthly'' \<and> day c = 1)
       \<or> (interval \<noteq> ''daily'' \<and> interval \<noteq> ''monthly''
           \<and> month c = month start_date \<and> day c = day start_date)))"

definition is_start :: "string \<Rightarrow> date \<Rightarrow> date \<Rightarrow> bool" where
  "is_start interval start_date c =
     (valid_date c \<and> (c = start_date \<or> later_start interval start_date c))"

definition pass_entry :: "db \<Rightarrow> string \<Rightarrow> date \<Rightarrow> date \<Rightarrow> bucket_key \<times> int \<times> int" where
  "pass_entry s interval end_date c =
     (bucket_key interval c,
      int (card (ar_employee ` {r \<in> set (records s).
                   ar_type r = IN \<and> checked_day interval c end_date (ar_date r)})),
      int (length (employees s))
        - int (card (ar_employee ` {r \<in> set (records s).
                       ar_type r = IN \<and> checked_day interval c end_date (ar_date r)})))"

section \<open>Report rows and their sorting\<close>

text \<open>
  The \<^verbatim>\<open>out_time\<close> column that \<^verbatim>\<open>_process_attendance_record_for_report\<close> computes from
  the \<^verbatim>\<open>out_record\<close> of the summary row, \<^verbatim>\<open>has_out_record\<close>, the date of the record
  and today's date.
\<close>

definition out_time_str :: "attendance_record option \<Rightarrow> bool \<Rightarrow> date \<Rightarrow> date \<Rightarrow> string" where
  "out_time_str out_record has_out_record record_date_obj today_date =
     (case out_record of
        Some out \<Rightarrow> strftime_time (ar_time out)
      | None \<Rightarrow>
          if \<not> has_out_record \<and> date_less record_date_obj today_date
          then strftime_time OUT_TIME_DEFAULT
          else if \<not> has_out_record then ''In progress...''
          else ''-'')"

text \<open>A processed record: the dictionary of strings that the report shows.\<close>

record report_row =
  rep_employee_name :: string
  rep_employee_id :: string
  rep_date :: string
  rep_in_time :: string
  rep_out_time :: string
  rep_lunch_in_time :: string
  rep_lunch_out_time :: string
  rep_total_break_duration :: string
  rep_total_working_hours :: string
  rep_overtime_hours :: string

text \<open>\<^verbatim>\<open>sub in s\<close> and \<^verbatim>\<open>s.replace(sub, '')\<close> on strings.\<close>

fun starts_with :: "string \<Rightarrow> string \<Rightarrow> bool" where
  "starts_with [] s = True"
| "starts_with (c # cs) [] = False"
| "starts_with (c # cs) (d # ds) = (c = d \<and> starts_with cs ds)"

fun contains :: "string \<Rightarrow> string \<Rightarrow> bool" where
  "contains sub [] = (sub = [])"
| "contains sub (c # cs) = (starts_with sub (c # cs) \<or> contains sub cs)"

function remove_all :: "string \<Rightarrow> string \<Rightarrow> string" where
  "remove_all sub [] = []"
| "remove_all sub (c # cs) =
     (if sub \<noteq> [] \<and> starts_with sub (c # cs)
      then remove_all sub (drop (length sub) (c # cs))
      else c # remove_all sub cs)"
  by pat_completeness auto
termination
  by (relation "measure (\<lambda>(sub, s). length s)") (auto simp: neq_Nil_conv)

text \<open>
  \<^verbatim>\<open>datetime.strptime(value, '%I:%M %p').time()\<close>: an hour of the 12-hour clock (one or
  two digits), a colon, a minute (one or two digits), white space, and \<^verbatim>\<open>AM\<close> or
  \<^verbatim>\<open>PM\<close> in any case, with nothing after it; \<^verbatim>\<open>ValueError\<close> for every other string.
  White space is the ASCII part of what the pattern \<^verbatim>\<open>\s\<close> matches: space, the
  characters 0x09 to 0x0D and 0x1C to 0x1F.
\<close>

definition digit_val :: "char \<Rightarrow> int" where
  "digit_val c = int (length (takeWhile (\<lambda>d. d \<noteq> c) ''0123456789''))"

definition parse_hour_12 :: "string \<Rightarrow> int option" where
  "parse_hour_12 s =
     (case s of
        [a] \<Rightarrow> if a \<in> set ''123456789'' then Some (digit_val a) else None
      | [a, b] \<Rightarrow>
          if a = CHR ''1'' \<and> b \<in> set ''012'' then Some (10 + digit_val b)
          else if a = CHR ''0'' \<and> b \<in> set ''123456789'' then Some (digit_val b)
          else None
      | _ \<Rightarrow> None)"

definition parse_minute :: "string \<Rightarrow> int option" where
  "parse_minute s =
     (case s of
        [a] \<Rightarrow> if a \<in> set ''0123456789'' then Some (digit_val a) else None
      | [a, b] \<Rightarrow>
          if a \<in> set ''012345'' \<and> b \<in> set ''0123456789''
          then Some (10 * digit_val a + digit_val b) else None
      | _ \<Rightarrow> None)"

definition parse_am_pm :: "string \<Rightarrow> bool option" where
  "parse_am_pm s =
     (case s of
        [a, b] \<Rightarrow>
          if b \<in> set ''mM'' then
            (if a \<in> set ''aA'' then Some False else if a \<in> set ''pP'' then Some True else None)
          else None
      | _ \<Rightarrow> None)"

definition is_space :: "char \<Rightarrow> bool" where
  "is_space c = (c \<in> set [CHR '' '', CHR 0x09, CHR 0x0A, CHR 0x0B, CHR 0x0C, CHR 0x0D,
                           CHR 0x1C, CHR 0x1D, CHR 0x1E, CHR 0x1F])"

definition strptime_time :: "string \<Rightarrow> error + time" where
  "strptime_time s =
     (let hh = takeWhile (\<lambda>c. c \<noteq> CHR '':'') s;
          after_colon = drop 1 (dropWhile (\<lambda>c. c \<noteq> CHR '':'') s);
          mm = takeWhile (\<lambda>c. \<not> is_space c) after_colon;
          spaces = takeWhile is_space (dropWhile (\<lambda>c. \<not> is_space c) after_colon);
          ampm = dropWhile is_space (dropWhile (\<lambda>c. \<not> is_space c) after_colon)
      in case (parse_hour_12 hh, parse_minute mm, parse_am_pm ampm) of
           (Some h, Some m, Some pm) \<Rightarrow>
             if length hh < length s \<and> spaces \<noteq> []
             then Inr (mk_time (if pm then (if h = 12 then 12 else h + 12)
                                else (if h = 12 then 0 else h)) m)
             else Inl ValueError
         | _ \<Rightarrow> Inl ValueError)"

text \<open>
  The value that \<^verbatim>\<open>dynamic_sort_key\<close> gives for a row: a time, a float or a string.
  \<^verbatim>\<open>float()\<close> of a string is a parameter of the model, \<open>None\<close> when it raises
  \<^verbatim>\<open>ValueError\<close>. \<open>sort_by\<close> is the request's \<^verbatim>\<open>sort_by\<close> parameter, \<^verbatim>\<open>'date'\<close> when
  the request has none.
\<close>

datatype sort_value = Time_value time | Float_value real | Str_value string

definition sort_by_map :: "report_row \<Rightarrow> string \<Rightarrow> string" where
  "sort_by_map item sort_by =
     (if sort_by = ''employee_name'' then rep_employee_name item
      else if sort_by = ''employee_id'' then rep_employee_id item
      else if sort_by = ''date'' then rep_date item
      else if sort_by = ''in_time'' then rep_in_time item
      else if sort_by = ''out_time'' then rep_out_time item
      else if sort_by = ''total_working_hours'' then rep_total_working_hours item
      else if sort_by = ''overtime_hours'' then rep_overtime_hours item
      else [])"

definition dynamic_sort_key :: "(string \<Rightarrow> real option) \<Rightarrow> string \<Rightarrow> report_row \<Rightarrow> error + sort_value" where
  "dynamic_sort_key py_float sort_by item =
     (let v = sort_by_map item sort_by in
      if contains ''time'' sort_by then
        (if v \<noteq> [] \<and> v \<noteq> ''-''
         then and_then (strptime_time v) (\<lambda>t. Inr (Time_value t))
         else Inr (Time_value 0))
      else if contains ''hours'' sort_by then
        (if v \<noteq> [] \<and> v \<noteq> ''-''
         then (case py_float (remove_all '' hours'' v) of
                 Some x \<Rightarrow> Inr (Float_value x)
               | None \<Rightarrow> Inr (Float_value 0))
         else Inr (Float_value 0))
      else Inr (Str_value v))"

text \<open>
  \<^verbatim>\<open>sorted(processed_records, key=dynamic_sort_key, reverse=...)\<close>: the keys of all rows
  are computed first, and an exception of the key function ends the sort. The sort is
  stable, also in reverse. All keys of one call are of the same kind.
\<close>

definition value_le :: "sort_value \<Rightarrow> sort_value \<Rightarrow> bool" where
  "value_le a b =
     (case (a, b) of
        (Time_value x, Time_value y) \<Rightarrow> x \<le> y
      | (Float_value x, Float_value y) \<Rightarrow> x \<le> y
      | (Str_value x, Str_value y) \<Rightarrow> x \<le> y
      | _ \<Rightarrow> True)"

fun keys_of :: "(report_row \<Rightarrow> error + sort_value) \<Rightarrow> report_row list
                \<Rightarrow> error + (sort_value \<times> report_row) list" where
  "keys_of key [] = Inr []"
| "keys_of key (item # items) =
     and_then (key item) (\<lambda>k.
     and_then (keys_of key items) (\<lambda>rest. Inr ((k, item) # rest)))"

fun insert_stable :: "sort_value \<times> report_row \<Rightarrow> (sort_value \<times> report_row) list
                      \<Rightarrow> (sort_value \<times> report_row) list" where
  "insert_stable x [] = [x]"
| "insert_stable x (y # ys) =
     (if value_le (fst x) (fst y) then x # y # ys else y # insert_stable x ys)"

definition stable_sort :: "(sort_value \<times> report_row) list \<Rightarrow> (sort_value \<times> report_row) list" where
  "stable_sort xs = foldr insert_stable xs []"

definition sorted_records ::
  "(string \<Rightarrow> real option) \<Rightarrow> string \<Rightarrow> string \<Rightarrow> report_row list \<Rightarrow> error + report_row list" where
  "sorted_records py_float sort_by sort_order processed_records =
     and_then (keys_of (dynamic_sort_key py_float sort_by) processed_records) (\<lambda>keyed.
     Inr (map snd (if sort_order = ''desc'' then rev (stable_sort (rev keyed))
                   else stable_sort keyed)))"

section \<open>Example stores\<close>

text \<open>Employee 1 on Monday 2025-06-16: in at 10:00 with one closed break from 10:00 to
  11:00 on the record, out at 10:30.\<close>

definition ex_in_long_break :: attendance_record where
  "ex_in_long_break =
     \<lparr>ar_pk = 1, ar_employee = 1, ar_date = mk_date 2025 6 16, ar_time = mk_time 10 0,
      ar_type = IN, remarks = ''On time.'', emotional_state = None,
      breaks = Some [\<lparr>break_type = OTHER, break_in = Some (mk_time 10 0),
                      break_out = Some (mk_time 11 0)\<rparr>]\<rparr>"

definition ex_out_early :: attendance_record where
  "ex_out_early =
     \<lparr>ar_pk = 2, ar_employee = 1, ar_date = mk_date 2025 6 16, ar_time = mk_time 10 30,
      ar_type = OUT, remarks = ''Out Time.'', emotional_state = None, breaks = None\<rparr>"

definition ex_jane :: employee where
  "ex_jane = \<lparr>emp_pk = 1, emp_name = ''Jane Doe'', employee_id = ''E001'', last_seen = None\<rparr>"

definition ex_store_long_break :: db where
  "ex_store_long_break =
     \<lparr>employees = [ex_jane], records = [ex_in_long_break, ex_out_early], office = None\<rparr>"

text \<open>Employee 1 in at 09:50 on 2025-06-16 and nothing else on record.\<close>

definition ex_in_plain :: attendance_record where
  "ex_in_plain =
     \<lparr>ar_pk = 1, ar_employee = 1, ar_date = mk_date 2025 6 16, ar_time = mk_time 9 50,
      ar_type = IN, remarks = ''On time.'', emotional_state = None, breaks = None\<rparr>"

definition ex_out_plain :: attendance_record where
  "ex_out_plain =
     \<lparr>ar_pk = 2, ar_employee = 1, ar_date = mk_date 2025 6 16, ar_time = mk_time 19 5,
      ar_type = OUT, remarks = ''Out Time.'', emotional_state = None, breaks = None\<rparr>"

definition ex_store_open :: db where
  "ex_store_open = \<lparr>employees = [ex_jane], records = [ex_in_plain], office = None\<rparr>"

definition ex_store_closed :: db where
  "ex_store_closed =
     \<lparr>employees = [ex_jane], records = [ex_in_plain, ex_out_plain], office = None\<rparr>"

definition ex_store_empty :: db where
  "ex_store_empty = \<lparr>employees = [ex_jane], records = [], office = None\<rparr>"

text \<open>The same day with an office location of radius 500 m configured.\<close>

definition ex_office :: location_setting where
  "ex_office = \<lparr>latitude = 0, longitude = 0, radius_meters = 500\<rparr>"

definition ex_store_office :: db where
  "ex_store_office = \<lparr>employees = [ex_jane], records = [ex_in_plain], office = Some ex_office\<rparr>"

text \<open>The \<^verbatim>\<open>IN\<close> record with one break on it whose \<^verbatim>\<open>break_in\<close> is not set.\<close>

definition ex_in_null_break :: attendance_record where
  "ex_in_null_break =
     \<lparr>ar_pk = 1, ar_employee = 1, ar_date = mk_date 2025 6 16, ar_time = mk_time 9 50,
      ar_type = IN, remarks = ''On time.'', emotional_state = None,
      breaks = Some [\<lparr>break_type = OTHER, break_in = None, break_out = None\<rparr>]\<rparr>"

definition ex_store_null_break :: db where
  "ex_store_null_break = \<lparr>employees = [ex_jane], records = [ex_in_null_break], office = None\<rparr>"

text \<open>Distance functions that give 0 m, 500.5 m and 500 m for every pair of points.\<close>

definition ex_geodesic :: geodesic where
  "ex_geodesic a b = Meters 0"



text \<open>Requests of Jane Doe, without and with a device location.\<close>

definition ex_payload :: payload where
  "ex_payload = \<lparr>recognized_name = Some ''Jane Doe'', user_latitude = None,
                  user_longitude = None, req_emotional_state = None\<rparr>"

definition ex_payload_geo :: payload where
  "ex_payload_geo = \<lparr>recognized_name = Some ''Jane Doe'', user_latitude = Some (Num 0),
                      user_longitude = Some (Num (1 / 100)), req_emotional_state = None\<rparr>"

text \<open>Jane Doe's day, from a store without records: in at 09:50, lunch break opened at
  13:45. The two stores are those after the first and after the second request.\<close>

definition ex_store_in :: db where
  "ex_store_in =
     \<lparr>employees = [ex_jane\<lparr>last_seen := Some (combine (mk_date 2025 6 16) (mk_time 9 50))\<rparr>],
      records = [ex_in_plain], office = None\<rparr>"

definition ex_store_lunch :: db where
  "ex_store_lunch =
     \<lparr>employees = [ex_jane\<lparr>last_seen := Some (combine (mk_date 2025 6 16) (mk_time 13 45))\<rparr>],
      records = [ex_in_plain\<lparr>breaks := Some [\<lparr>break_type = LUNCH,
                                                 break_in = Some (mk_time 13 45),
                                                 break_out = None\<rparr>]\<rparr>],
      office = None\<rparr>"

text \<open>The report row of Jane Doe's open session on 2025-06-16, processed on that day.\<close>

definition ex_row_open :: report_row where
  "ex_row_open =
     \<lparr>rep_employee_name = ''Jane Doe'', rep_employee_id = ''E001'', rep_date = ''2025-06-16'',
      rep_in_time = ''09:50 AM'',
      rep_out_time = out_time_str None False (mk_date 2025 6 16) (mk_date 2025 6 16),
      rep_lunch_in_time = ''-'', rep_lunch_out_time = ''-'', rep_total_break_duration = ''-'',
      rep_total_working_hours = ''2.50 hours'', rep_overtime_hours = ''0.00 hours''\<rparr>"

text \<open>Jane Doe with a single \<^verbatim>\<open>IN\<close> record, on 2025-02-10.\<close>

definition ex_in_february :: attendance_record where
  "ex_in_february =
     \<lparr>ar_pk = 1, ar_employee = 1, ar_date = mk_date 2025 2 10, ar_time = mk_time 10 0,
      ar_type = IN, remarks = ''On time.'', emotional_state = None, breaks = None\<rparr>"

definition ex_store_february :: db where
  "ex_store_february = \<lparr>employees = [ex_jane], records = [ex_in_february], office = None\<rparr>"

section \<open>Unfolding the examples\<close>

lemmas ex_store_defs =
  ex_in_long_break_def ex_out_early_def ex_jane_def ex_store_long_break_def
  ex_in_plain_def ex_out_plain_def ex_store_open_def ex_store_closed_def ex_store_empty_def
  ex_office_def ex_store_office_def ex_in_null_break_def ex_store_null_break_def
  ex_payload_def ex_payload_geo_def ex_store_in_def ex_store_lunch_def

lemmas hours_defs =
  calculate_working_hours_def day_record_def comes_before_def date_less_def session_end_def
  hours_until_def combine_def micros_def seconds_between_def mk_date_def mk_time_def
  OUT_TIME_DEFAULT_def


section \<open>Facts about the calendar\<close>

lemma div_step:
  assumes "0 < (k::int)"
  shows "y div k = (y - 1) div k + (if y mod k = 0 then 1 else 0)"
proof (cases "y mod k = 0")
  case True
  have "y = k * (y div k) + y mod k" by simp
  with True have "y = k * (y div k)" by simp
  then have "y - 1 = k * (y div k - 1) + (k - 1)"
    by (simp add: algebra_simps)
  then have "(y - 1) div k = y div k - 1"
    by (rule int_div_pos_eq [where r = "k - 1"]) (use assms in simp_all)
  with True show ?thesis by simp
next
  case False
  have "0 \<le> y mod k" "y mod k < k" using assms by simp_all
  with False have r: "0 \<le> y mod k - 1" "y mod k - 1 < k" by linarith+
  have "y - 1 = k * (y div k) + (y mod k - 1)"
    by (simp add: algebra_simps)
  then have "(y - 1) div k = y div k"
    by (rule int_div_pos_eq [where r = "y mod k - 1"]) (use r in simp_all)
  with False show ?thesis by simp
qed

lemma mod_400_100: "(y::int) mod 400 = 0 \<Longrightarrow> y mod 100 = 0"
  using mod_mod_cancel [of 100 400 y] by simp

lemma mod_100_4: "(y::int) mod 100 = 0 \<Longrightarrow> y mod 4 = 0"
  using mod_mod_cancel [of 4 100 y] by simp

lemma dby_step: "days_before_year (y + 1) = days_before_year y + (if is_leap y then 366 else 365)"
proof -
  define a where "a = (y - 1) div 4"
  define b where "b = (y - 1) div 100"
  define c where "c = (y - 1) div 400"
  define p4 where "p4 = (y mod 4 = 0)"
  define p100 where "p100 = (y mod 100 = 0)"
  define p400 where "p400 = (y mod 400 = 0)"
  have imp: "p400 \<longrightarrow> p100" "p100 \<longrightarrow> p4"
    unfolding p4_def p100_def p400_def using mod_400_100 [of y] mod_100_4 [of y] by blast+
  have d4: "y div 4 = a + (if p4 then 1 else 0)"
    unfolding a_def p4_def by (rule div_step) simp
  have d100: "y div 100 = b + (if p100 then 1 else 0)"
    unfolding b_def p100_def by (rule div_step) simp
  have d400: "y div 400 = c + (if p400 then 1 else 0)"
    unfolding c_def p400_def by (rule div_step) simp
  have l: "days_before_year (y + 1) = y * 365 + y div 4 - y div 100 + y div 400"
    by (simp add: days_before_year_def)
  have r: "days_before_year y = (y - 1) * 365 + a - b + c"
    by (simp add: days_before_year_def a_def b_def c_def)
  have leap: "is_leap y = (p4 \<and> (\<not> p100 \<or> p400))"
    by (simp only: is_leap_def p4_def p100_def p400_def)
  show ?thesis
    unfolding l r d4 d100 d400 leap using imp by (cases p4; cases p100; cases p400; simp)
qed

lemma dby_mono_aux: "days_before_year y \<le> days_before_year (y + int k)"
proof (induction k)
  case 0 show ?case by simp
next
  case (Suc k)
  have "days_before_year (y + int (Suc k)) = days_before_year ((y + int k) + 1)"
    by (rule arg_cong [of _ _ days_before_year]) simp
  also have "\<dots> \<ge> days_before_year (y + int k)"
    unfolding dby_step by simp
  finally show ?case using Suc by simp
qed

lemma dby_mono: "a \<le> b \<Longrightarrow> days_before_year a \<le> days_before_year b"
  using dby_mono_aux [of a "nat (b - a)"] by simp

lemma month_cases:
  "1 \<le> (m::int) \<Longrightarrow> m \<le> 12 \<Longrightarrow>
   m = 1 \<or> m = 2 \<or> m = 3 \<or> m = 4 \<or> m = 5 \<or> m = 6 \<or> m = 7 \<or> m = 8 \<or> m = 9 \<or> m = 10 \<or> m = 11 \<or> m = 12"
  by arith

lemma dbm_values:
  "days_before_month y 1 = 0"
  "days_before_month y 2 = 31"
  "days_before_month y 3 = 59 + (if is_leap y then 1 else 0)"
  "days_before_month y 4 = 90 + (if is_leap y then 1 else 0)"
  "days_before_month y 5 = 120 + (if is_leap y then 1 else 0)"
  "days_before_month y 6 = 151 + (if is_leap y then 1 else 0)"
  "days_before_month y 7 = 181 + (if is_leap y then 1 else 0)"
  "days_before_month y 8 = 212 + (if is_leap y then 1 else 0)"
  "days_before_month y 9 = 243 + (if is_leap y then 1 else 0)"
  "days_before_month y 10 = 273 + (if is_leap y then 1 else 0)"
  "days_before_month y 11 = 304 + (if is_leap y then 1 else 0)"
  "days_before_month y 12 = 334 + (if is_leap y then 1 else 0)"
  by (simp_all add: days_before_month_def days_in_month_def eval_nat_numeral)

lemma dim_values:
  "days_in_month y 1 = 31" "days_in_month y 2 = (if is_leap y then 29 else 28)"
  "days_in_month y 3 = 31" "days_in_month y 4 = 30" "days_in_month y 5 = 31"
  "days_in_month y 6 = 30" "days_in_month y 7 = 31" "days_in_month y 8 = 31"
  "days_in_month y 9 = 30" "days_in_month y 10 = 31" "days_in_month y 11 = 30"
  "days_in_month y 12 = 31"
  by (simp_all add: days_in_month_def)

lemma dim_bounds: "28 \<le> days_in_month y m" "days_in_month y m \<le> 31"
  by (simp_all add: days_in_month_def)

lemma dbm_step:
  assumes "1 \<le> m" "m \<le> 11"
  shows "days_before_month y (m + 1) = days_before_month y m + days_in_month y m"
proof -
  from assms have "m = 1 \<or> m = 2 \<or> m = 3 \<or> m = 4 \<or> m = 5 \<or> m = 6 \<or> m = 7 \<or> m = 8 \<or> m = 9 \<or> m = 10 \<or> m = 11"
    by arith
  then show ?thesis
    by (elim disjE) (simp_all add: dbm_values dim_values)
qed

lemma dbm_last: "days_before_month y 12 + 31 = (if is_leap y then 366 else 365)"
  by (simp add: dbm_values)

lemma toordinal_next_day:
  assumes "wf_md d"
  shows "toordinal (next_day d) = toordinal d + 1" and "wf_md (next_day d)"
proof -
  show "toordinal (next_day d) = toordinal d + 1"
  proof (cases "day d < days_in_month (year d) (month d)")
    case True
    then show ?thesis by (simp add: next_day_def toordinal_def)
  next
    case False
    with assms have eq: "day d = days_in_month (year d) (month d)" by (simp add: wf_md_def)
    show ?thesis
    proof (cases "month d < 12")
      case True
      with assms have "days_before_month (year d) (month d + 1)
                       = days_before_month (year d) (month d) + days_in_month (year d) (month d)"
        by (intro dbm_step) (simp_all add: wf_md_def)
      with True eq show ?thesis by (simp add: next_day_def toordinal_def mk_date_def)
    next
      case False
      with assms have m: "month d = 12" by (simp add: wf_md_def)
      with eq have "day d = 31" by (simp add: dim_values)
      with m show ?thesis
        using dbm_last [of "year d"] dby_step [of "year d"]
        by (simp add: next_day_def toordinal_def mk_date_def dim_values dbm_values)
    qed
  qed
  show "wf_md (next_day d)"
    using assms dim_bounds [of "year d" "month d + 1"] dim_bounds [of "year d + 1" 1]
    by (simp add: next_day_def wf_md_def mk_date_def)
qed

lemma toordinal_prev_day:
  assumes "wf_md d"
  shows "toordinal (prev_day d) = toordinal d - 1" and "wf_md (prev_day d)"
proof -
  show "toordinal (prev_day d) = toordinal d - 1"
  proof (cases "1 < day d")
    case True
    then show ?thesis by (simp add: prev_day_def toordinal_def)
  next
    case False
    with assms have eq: "day d = 1" by (simp add: wf_md_def)
    show ?thesis
    proof (cases "1 < month d")
      case True
      with assms have "days_before_month (year d) (month d - 1 + 1)
                       = days_before_month (year d) (month d - 1) + days_in_month (year d) (month d - 1)"
        by (intro dbm_step) (simp_all add: wf_md_def)
      with True eq show ?thesis by (simp add: prev_day_def toordinal_def mk_date_def)
    next
      case False
      with assms have m: "month d = 1" by (simp add: wf_md_def)
      with eq show ?thesis
        using dbm_last [of "year d - 1"] dby_step [of "year d - 1"]
        by (simp add: prev_day_def toordinal_def mk_date_def dim_values dbm_values)
    qed
  qed
  show "wf_md (prev_day d)"
    using assms dim_bounds [of "year d" "month d - 1"]
    by (simp add: prev_day_def wf_md_def mk_date_def dim_values)
qed

lemma forward_ord: "wf_md d \<Longrightarrow> wf_md (forward n d) \<and> toordinal (forward n d) = toordinal d + int n"
  by (induction n arbitrary: d) (simp_all add: toordinal_next_day)

lemma backward_ord: "wf_md d \<Longrightarrow> wf_md (backward n d) \<and> toordinal (backward n d) = toordinal d - int n"
  by (induction n arbitrary: d) (simp_all add: toordinal_prev_day)

lemma day_of_year_bounds:
  assumes "wf_md d"
  shows "1 \<le> days_before_month (year d) (month d) + day d"
    and "days_before_month (year d) (month d) + day d \<le> (if is_leap (year d) then 366 else 365)"
proof -
  from assms have m: "1 \<le> month d" "month d \<le> 12" and dd: "1 \<le> day d" "day d \<le> days_in_month (year d) (month d)"
    by (simp_all add: wf_md_def)
  from month_cases [OF m] dd show "1 \<le> days_before_month (year d) (month d) + day d"
    by (elim disjE) (simp_all add: dbm_values)
  from month_cases [OF m] dd show "days_before_month (year d) (month d) + day d \<le> (if is_leap (year d) then 366 else 365)"
    by (elim disjE) (simp_all add: dbm_values dim_values split: if_splits)
qed

lemma toordinal_year_bounds:
  assumes "wf_md d"
  shows "days_before_year (year d) < toordinal d" and "toordinal d \<le> days_before_year (year d + 1)"
proof -
  have t: "toordinal d = days_before_year (year d) + (days_before_month (year d) (month d) + day d)"
    by (simp add: toordinal_def)
  from day_of_year_bounds(1) [OF assms] t show "days_before_year (year d) < toordinal d"
    by linarith
  show "toordinal d \<le> days_before_year (year d + 1)"
  proof (cases "is_leap (year d)")
    case True
    with day_of_year_bounds(2) [OF assms] dby_step [of "year d"] t show ?thesis by simp
  next
    case False
    with day_of_year_bounds(2) [OF assms] dby_step [of "year d"] t show ?thesis by simp
  qed
qed

lemma dby_1: "days_before_year 1 = 0" by (simp add: days_before_year_def)
lemma dby_10000: "days_before_year 10000 = 3652059" by (simp add: days_before_year_def)

lemma ordinal_range_iff:
  assumes "wf_md d"
  shows "(1 \<le> toordinal d \<and> toordinal d \<le> max_ordinal) = (1 \<le> year d \<and> year d \<le> 9999)"
proof -
  note b = toordinal_year_bounds [OF assms]
  have a: "1 \<le> year d \<Longrightarrow> 1 \<le> toordinal d"
    using b(1) dby_mono [of 1 "year d"] by (simp add: dby_1)
  have c: "year d \<le> 9999 \<Longrightarrow> toordinal d \<le> max_ordinal"
    using b(2) dby_mono [of "year d + 1" 10000] by (simp add: dby_10000 max_ordinal_def)
  have a': "year d \<le> 0 \<Longrightarrow> toordinal d \<le> 0"
    using b(2) dby_mono [of "year d + 1" 1] by (simp add: dby_1)
  have c': "10000 \<le> year d \<Longrightarrow> max_ordinal < toordinal d"
    using b(1) dby_mono [of 10000 "year d"] by (simp add: dby_10000 max_ordinal_def)
  show ?thesis
  proof
    assume h: "1 \<le> toordinal d \<and> toordinal d \<le> max_ordinal"
    have "\<not> year d \<le> 0" using a' h by linarith
    moreover have "\<not> 10000 \<le> year d" using c' h by linarith
    ultimately show "1 \<le> year d \<and> year d \<le> 9999" by linarith
  next
    assume "1 \<le> year d \<and> year d \<le> 9999"
    with a c show "1 \<le> toordinal d \<and> toordinal d \<le> max_ordinal" by simp
  qed
qed

lemma valid_date_iff: "valid_date d = (wf_md d \<and> 1 \<le> year d \<and> year d \<le> 9999)"
  by (auto simp: valid_date_def wf_md_def)

lemma add_days_ok:
  assumes "valid_date d" "1 \<le> toordinal d + n" "toordinal d + n \<le> max_ordinal"
  shows "\<exists>d'. add_days d n = Inr d' \<and> valid_date d' \<and> toordinal d' = toordinal d + n"
proof -
  from assms(1) have wf: "wf_md d" by (simp add: valid_date_iff)
  define d' where "d' = (if 0 \<le> n then forward (nat n) d else backward (nat (- n)) d)"
  have eq: "add_days d n = Inr d'" using assms(2,3) by (simp add: add_days_def d'_def Let_def)
  have w: "wf_md d' \<and> toordinal d' = toordinal d + n"
    using forward_ord [OF wf, of "nat n"] backward_ord [OF wf, of "nat (- n)"]
    by (simp add: d'_def)
  with assms(2,3) have "valid_date d'"
    using ordinal_range_iff [of d'] by (simp add: valid_date_iff)
  with eq w show ?thesis by blast
qed

lemma add_days_overflow:
  "\<not> (1 \<le> toordinal d + n \<and> toordinal d + n \<le> max_ordinal) \<Longrightarrow> add_days d n = Inl OverflowError"
  by (auto simp: add_days_def Let_def)


lemma dbm_nat_mono: "days_before_month_nat y k \<le> days_before_month_nat y (k + j)"
proof (induction j)
  case 0 show ?case by simp
next
  case (Suc j)
  have "0 \<le> days_in_month y (int (Suc (k + j)))" using dim_bounds(1) [of y "int (Suc (k + j))"] by linarith
  with Suc show ?case by simp
qed

lemma dbm_mono:
  assumes "1 \<le> m" "m \<le> m'"
  shows "days_before_month y m \<le> days_before_month y m'"
proof -
  have "nat (m' - 1) = nat (m - 1) + nat (m' - m)" using assms by simp
  then show ?thesis using dbm_nat_mono [of y "nat (m - 1)" "nat (m' - m)"]
    by (simp add: days_before_month_def)
qed

lemma date_less_toordinal:
  assumes a: "wf_md a" and b: "wf_md b" and l: "date_less a b"
  shows "toordinal a < toordinal b"
proof -
  from l consider (y) "year a < year b" | (m) "year a = year b" "month a < month b"
    | (d) "year a = year b" "month a = month b" "day a < day b"
    by (auto simp: date_less_def)
  then show ?thesis
  proof cases
    case y
    have "toordinal a \<le> days_before_year (year a + 1)" by (rule toordinal_year_bounds(2) [OF a])
    also have "\<dots> \<le> days_before_year (year b)" using y by (intro dby_mono) simp
    also have "\<dots> < toordinal b" by (rule toordinal_year_bounds(1) [OF b])
    finally show ?thesis .
  next
    case m
    from a b have ma: "1 \<le> month a" "month a \<le> 11" and da: "day a \<le> days_in_month (year a) (month a)"
      and db: "1 \<le> day b" using m by (simp_all add: wf_md_def)
    have "days_before_month (year a) (month a) + day a
          \<le> days_before_month (year a) (month a) + days_in_month (year a) (month a)"
      using da by simp
    also have "\<dots> = days_before_month (year a) (month a + 1)" using dbm_step [OF ma] by simp
    also have "\<dots> \<le> days_before_month (year a) (month b)"
      using ma m by (intro dbm_mono) simp_all
    finally show ?thesis using db m by (simp add: toordinal_def)
  next
    case d
    then show ?thesis by (simp add: toordinal_def)
  qed
qed

lemma date_trichotomy: "date_less a b \<or> a = b \<or> date_less b a"
  by (cases a; cases b) (auto simp: date_less_def)

lemma toordinal_inj:
  assumes "wf_md a" "wf_md b" "toordinal a = toordinal b"
  shows "a = b"
  using date_trichotomy [of a b] date_less_toordinal [OF assms(1,2)]
        date_less_toordinal [OF assms(2,1)] assms(3) by auto

lemma date_less_iff:
  assumes "wf_md a" "wf_md b"
  shows "date_less a b = (toordinal a < toordinal b)"
  using date_trichotomy [of a b] date_less_toordinal [OF assms(1,2)]
        date_less_toordinal [OF assms(2,1)] by auto

lemma date_le_iff:
  assumes "wf_md a" "wf_md b"
  shows "date_le a b = (toordinal a \<le> toordinal b)"
  using date_less_iff [OF assms] toordinal_inj [OF assms] by (auto simp: date_le_def)


section \<open>Facts about the period resolver\<close>

lemma mk_date_sel:
  "year (mk_date y m k) = y" "month (mk_date y m k) = m" "day (mk_date y m k) = k"
  by (simp_all add: mk_date_def)

lemma replace_ok: "valid_date (mk_date y m k) \<Longrightarrow> replace d y m k = Inr (mk_date y m k)"
  by (simp add: replace_def)

lemma next_day_mk_date:
  "next_day (mk_date y m k) =
     (if k < days_in_month y m then mk_date y m (k + 1)
      else if m < 12 then mk_date y (m + 1) 1 else mk_date (y + 1) 1 1)"
  by (simp add: next_day_def mk_date_def)

lemma prev_day_mk_date:
  "prev_day (mk_date y m k) =
     (if 1 < k then mk_date y m (k - 1)
      else if 1 < m then mk_date y (m - 1) (days_in_month y (m - 1)) else mk_date (y - 1) 12 31)"
  by (simp add: prev_day_def mk_date_def)

lemma forward_4: "forward 4 d = next_day (next_day (next_day (next_day d)))"
  by (simp add: eval_nat_numeral)

lemma forward_4_from_28:
  assumes "1 \<le> m" "m \<le> 12"
  shows "forward 4 (mk_date y m 28)
         = (if m < 12 then mk_date y (m + 1) (32 - days_in_month y m) else mk_date (y + 1) 1 1)"
  using month_cases [OF assms]
  by (cases "is_leap y"; elim disjE) (simp_all add: forward_4 next_day_mk_date dim_values)

lemma first_of_next_month:
  assumes "valid_date d" "\<not> (year d = 9999 \<and> month d = 12)"
  shows "\<exists>d32. add_days (mk_date (year d) (month d) 28) 4 = Inr d32 \<and>
           year d32 = (if month d < 12 then year d else year d + 1) \<and>
           month d32 = (if month d < 12 then month d + 1 else 1)"
proof -
  let ?d28 = "mk_date (year d) (month d) 28"
  from assms(1) have m: "1 \<le> month d" "month d \<le> 12" and y: "1 \<le> year d" "year d \<le> 9999"
    by (simp_all add: valid_date_def)
  have wf: "wf_md ?d28" using m dim_bounds(1) [of "year d" "month d"] by (simp add: wf_md_def mk_date_def)
  let ?f = "forward 4 ?d28"
  have f: "?f = (if month d < 12 then mk_date (year d) (month d + 1) (32 - days_in_month (year d) (month d))
                 else mk_date (year d + 1) 1 1)"
    by (rule forward_4_from_28 [OF m])
  have fo: "wf_md ?f \<and> toordinal ?f = toordinal ?d28 + 4"
    using forward_ord [OF wf, of 4] by simp
  have yf: "1 \<le> year ?f \<and> year ?f \<le> 9999"
    unfolding f using y m assms(2) by (auto simp: mk_date_sel)
  with fo have "1 \<le> toordinal ?d28 + 4 \<and> toordinal ?d28 + 4 \<le> max_ordinal"
    using ordinal_range_iff [of ?f] by simp
  then have "add_days ?d28 4 = Inr ?f"
    by (simp add: add_days_def Let_def)
  moreover have "year ?f = (if month d < 12 then year d else year d + 1)"
    unfolding f by (simp add: mk_date_sel)
  moreover have "month ?f = (if month d < 12 then month d + 1 else 1)"
    unfolding f by (simp add: mk_date_sel)
  ultimately show ?thesis by blast
qed

lemma last_of_month:
  assumes "valid_date d" "\<not> (year d = 9999 \<and> month d = 12)"
  shows "add_days (mk_date (if month d < 12 then year d else year d + 1)
                           (if month d < 12 then month d + 1 else 1) 1) (- 1)
         = Inr (mk_date (year d) (month d) (days_in_month (year d) (month d)))"
proof -
  let ?n = "mk_date (if month d < 12 then year d else year d + 1) (if month d < 12 then month d + 1 else 1) 1"
  let ?l = "mk_date (year d) (month d) (days_in_month (year d) (month d))"
  from assms(1) have m: "1 \<le> month d" "month d \<le> 12" and y: "1 \<le> year d" "year d \<le> 9999"
    by (simp_all add: valid_date_def)
  have wf: "wf_md ?n" using m dim_bounds(1) [of "year d" "month d + 1"]
    by (simp add: wf_md_def mk_date_def dim_values)
  have p: "prev_day ?n = ?l" using m by (auto simp: prev_day_def mk_date_def dim_values)
  have "wf_md ?l" using m dim_bounds(1) [of "year d" "month d"] by (simp add: wf_md_def mk_date_def)
  moreover have "year ?l = year d" by (simp add: mk_date_def)
  ultimately have r: "1 \<le> toordinal ?l \<and> toordinal ?l \<le> max_ordinal"
    using ordinal_range_iff [of ?l] y by simp
  have "toordinal ?l = toordinal ?n - 1" using toordinal_prev_day(1) [OF wf] p by simp
  with r have "1 \<le> toordinal ?n + (- 1) \<and> toordinal ?n + (- 1) \<le> max_ordinal" by simp
  then have "add_days ?n (- 1) = Inr (backward (nat 1) ?n)"
    by (simp add: add_days_def Let_def)
  then show ?thesis using p by (simp add: eval_nat_numeral)
qed

lemma get_period_dates_month:
  assumes "valid_date d" "\<not> (year d = 9999 \<and> month d = 12)"
  shows "get_period_dates d ''month''
         = Inr (mk_date (year d) (month d) 1,
                mk_date (year d) (month d) (days_in_month (year d) (month d)))"
proof -
  from assms(1) have m: "1 \<le> month d" "month d \<le> 12" and y: "1 \<le> year d" "year d \<le> 9999"
    by (simp_all add: valid_date_def)
  have v1: "valid_date (mk_date (year d) (month d) 1)"
    using m y dim_bounds(1) [of "year d" "month d"] by (simp add: valid_date_def mk_date_def)
  have v28: "valid_date (mk_date (year d) (month d) 28)"
    using m y dim_bounds(1) [of "year d" "month d"] by (simp add: valid_date_def mk_date_def)
  from first_of_next_month [OF assms] obtain d32 where
    a: "add_days (mk_date (year d) (month d) 28) 4 = Inr d32" and
    yd: "year d32 = (if month d < 12 then year d else year d + 1)" and
    md: "month d32 = (if month d < 12 then month d + 1 else 1)"
    by blast
  have vn: "valid_date (mk_date (year d32) (month d32) 1)"
    using m y assms(2) dim_bounds(1) [of "year d32" "month d32"]
    by (auto simp: valid_date_def mk_date_def yd md)
  have l: "add_days (mk_date (year d32) (month d32) 1) (- 1)
           = Inr (mk_date (year d) (month d) (days_in_month (year d) (month d)))"
    unfolding yd md by (rule last_of_month [OF assms])
  show ?thesis
    by (simp add: get_period_dates_def and_then_def replace_ok [OF v1] replace_ok [OF v28]
                  replace_ok [OF vn] a l)
qed

lemma get_period_dates_month_overflow:
  assumes "valid_date d" "year d = 9999" "month d = 12"
  shows "get_period_dates d ''month'' = Inl OverflowError"
proof -
  have v1: "valid_date (mk_date 9999 12 1)" "valid_date (mk_date 9999 12 28)"
    by (simp_all add: valid_date_def mk_date_def dim_values)
  have "toordinal (mk_date 9999 12 28) = 3652056"
    by (simp add: toordinal_def mk_date_def days_before_year_def dbm_values is_leap_def)
  then have "add_days (mk_date 9999 12 28) 4 = Inl OverflowError"
    by (simp add: add_days_def max_ordinal_def)
  then show ?thesis
    by (simp add: get_period_dates_def and_then_def assms(2,3) replace_ok v1)
qed

lemma get_period_dates_year:
  assumes "valid_date d"
  shows "get_period_dates d ''year'' = Inr (mk_date (year d) 1 1, mk_date (year d) 12 31)"
proof -
  from assms have y: "1 \<le> year d" "year d \<le> 9999" by (simp_all add: valid_date_def)
  then have "valid_date (mk_date (year d) 1 1)" "valid_date (mk_date (year d) 12 31)"
    by (simp_all add: valid_date_def mk_date_def dim_values)
  then show ?thesis
    by (simp add: get_period_dates_def and_then_def replace_ok)
qed

lemma weekday_range: "0 \<le> weekday d \<and> weekday d \<le> 6"
  by (simp add: weekday_def)

lemma monday_ordinal:
  fixes ord :: int
  assumes "1 \<le> ord"
  shows "1 \<le> ord - (ord + 6) mod 7" and "(ord - (ord + 6) mod 7 + 6) mod 7 = 0"
    and "ord \<le> 3652054 \<Longrightarrow> ord - (ord + 6) mod 7 + 6 \<le> 3652059"
    and "3652054 < ord \<Longrightarrow> 3652059 < ord - (ord + 6) mod 7 + 6"
  using assms by presburger+

lemma get_period_dates_week:
  assumes "valid_date d" "toordinal d \<le> 3652054"
  shows "\<exists>start_date end_date. get_period_dates d ''week'' = Inr (start_date, end_date) \<and>
           valid_date start_date \<and> valid_date end_date \<and> weekday start_date = 0 \<and>
           toordinal start_date \<le> toordinal d \<and> toordinal d \<le> toordinal end_date \<and>
           toordinal end_date = toordinal start_date + 6"
proof -
  from assms(1) have o1: "1 \<le> toordinal d"
    using ordinal_range_iff [of d] by (simp add: valid_date_iff)
  note mo = monday_ordinal [OF o1]
  have w: "weekday d = (toordinal d + 6) mod 7" by (simp add: weekday_def)
  have "toordinal d + (- weekday d) \<le> max_ordinal"
    using assms(2) weekday_range [of d] by (simp add: max_ordinal_def)
  with mo(1) obtain s where s: "add_days d (- weekday d) = Inr s" "valid_date s"
      "toordinal s = toordinal d + (- weekday d)"
    using add_days_ok [OF assms(1), of "- weekday d"] by (auto simp: w)
  have "toordinal s + 6 \<le> max_ordinal" using mo(3) [OF assms(2)] s(3) by (simp add: w max_ordinal_def)
  moreover have "1 \<le> toordinal s + 6" using mo(1) s(3) by (simp add: w)
  ultimately obtain e where e: "add_days s 6 = Inr e" "valid_date e" "toordinal e = toordinal s + 6"
    using add_days_ok [OF s(2), of 6] by auto
  have "weekday s = 0" using mo(2) s(3) by (simp add: weekday_def w)
  moreover have "toordinal s \<le> toordinal d" "toordinal d \<le> toordinal e"
    using s(3) e(3) weekday_range [of d] by simp_all
  moreover have "get_period_dates d ''week'' = Inr (s, e)"
    by (simp add: get_period_dates_def and_then_def s(1) e(1))
  ultimately show ?thesis using s(2) e(2,3) by blast
qed

lemma get_period_dates_week_overflow:
  assumes "valid_date d" "3652054 < toordinal d"
  shows "get_period_dates d ''week'' = Inl OverflowError"
proof -
  from assms(1) have o: "1 \<le> toordinal d" "toordinal d \<le> max_ordinal"
    using ordinal_range_iff [of d] by (simp_all add: valid_date_iff)
  note mo = monday_ordinal [OF o(1)]
  have w: "weekday d = (toordinal d + 6) mod 7" by (simp add: weekday_def)
  have "toordinal d + (- weekday d) \<le> max_ordinal"
    using o(2) weekday_range [of d] by simp
  with mo(1) obtain s where s: "add_days d (- weekday d) = Inr s" "valid_date s"
      "toordinal s = toordinal d + (- weekday d)"
    using add_days_ok [OF assms(1), of "- weekday d"] by (auto simp: w)
  have "max_ordinal < toordinal s + 6" using mo(4) [OF assms(2)] s(3) by (simp add: w max_ordinal_def)
  then have "add_days s 6 = Inl OverflowError" by (intro add_days_overflow) simp
  then show ?thesis by (simp add: get_period_dates_def and_then_def s(1))
qed

lemma get_period_dates_week_example: "get_period_dates (mk_date 2025 6 17) ''week'' = Inr (mk_date 2025 6 16, mk_date 2025 6 22)"
proof -
  have o: "toordinal (mk_date 2025 6 17) = 739419"
    by (simp add: toordinal_def mk_date_sel days_before_year_def dbm_values is_leap_def)
  then have w: "weekday (mk_date 2025 6 17) = 1" by (simp add: weekday_def)
  have s: "add_days (mk_date 2025 6 17) (- 1) = Inr (mk_date 2025 6 16)"
    by (simp add: add_days_def o max_ordinal_def prev_day_mk_date)
  have o': "toordinal (mk_date 2025 6 16) = 739418"
    by (simp add: toordinal_def mk_date_sel days_before_year_def dbm_values is_leap_def)
  have e: "add_days (mk_date 2025 6 16) 6 = Inr (mk_date 2025 6 22)"
    by (simp add: add_days_def o' max_ordinal_def eval_nat_numeral next_day_mk_date dim_values)
  show ?thesis by (simp add: get_period_dates_def and_then_def w s e)
qed

lemma get_period_dates_week_9999: "get_period_dates (mk_date 9999 12 31) ''week'' = Inl OverflowError"
proof -
  have o: "toordinal (mk_date 9999 12 31) = 3652059"
    by (simp add: toordinal_def mk_date_sel days_before_year_def dbm_values is_leap_def)
  then have w: "weekday (mk_date 9999 12 31) = 4" by (simp add: weekday_def)
  have s: "add_days (mk_date 9999 12 31) (- 4) = Inr (mk_date 9999 12 27)"
    by (simp add: add_days_def o max_ordinal_def eval_nat_numeral prev_day_mk_date)
  have o': "toordinal (mk_date 9999 12 27) = 3652055"
    by (simp add: toordinal_def mk_date_sel days_before_year_def dbm_values is_leap_def)
  have e: "add_days (mk_date 9999 12 27) 6 = Inl OverflowError"
    by (simp add: add_days_def o' max_ordinal_def)
  show ?thesis by (simp add: get_period_dates_def and_then_def w s e)
qed


section \<open>Facts about the state machine\<close>

lemma mark_recognized:
  assumes "recognized_name data = Some name" "name \<noteq> []" "name \<noteq> ''Unknown''"
    and "get_employee s name = Found emp"
  shows "mark_attendance_with_gesture geodesic s now (Payload data) =
         (case geofence geodesic (office s) (user_latitude data) (user_longitude data) of
            TooFar distance_meters radius \<Rightarrow>
              (s, \<lparr>status = Info, http_code = 200,
                    message = ''You are '' @ str_int (py_int distance_meters)
                      @ ''m away from the office. Attendance can only be marked within ''
                      @ str_int radius @ ''m.'',
                    resp_name = Some (emp_name emp), attendance_type = None, is_late = None\<rparr>)
          | Proceed suffix \<Rightarrow> attendance_action s now emp (req_emotional_state data) suffix)"
  using assms by (simp add: mark_attendance_with_gesture_def)

lemma save_last_seen_twice:
  "save_last_seen (save_last_seen s emp now) emp now = save_last_seen s emp now"
  by (simp add: save_last_seen_def comp_def cong: map_cong)

lemma save_last_seen_simps:
  "records (save_last_seen s emp now) = records s"
  "office (save_last_seen s emp now) = office s"
  "employees (save_last_seen s emp now)
     = map (\<lambda>e. if emp_pk e = emp_pk emp then e\<lparr>last_seen := Some now\<rparr> else e) (employees s)"
  by (simp_all add: save_last_seen_def)

lemma save_breaks_simps:
  "employees (save_breaks s r bs) = employees s"
  "office (save_breaks s r bs) = office s"
  "records (save_breaks s r bs)
     = map (\<lambda>r'. if ar_pk r' = ar_pk r then r'\<lparr>breaks := Some bs\<rparr> else r') (records s)"
  by (simp_all add: save_breaks_def)

lemma create_simps:
  "employees (create_attendance_record s now emp t rem emo) = employees (save_last_seen s emp now)"
  "office (create_attendance_record s now emp t rem emo) = office s"
  by (simp_all add: create_attendance_record_def save_last_seen_def Let_def)

lemma attendance_action_checked_out:
  assumes "day_record s (emp_pk emp) (dt_date now) IN = Some i"
    and "day_record s (emp_pk emp) (dt_date now) OUT = Some out"
  shows "attendance_action s now emp emo suffix =
         (save_last_seen s emp now,
          \<lparr>status = Info, http_code = 200,
           message = ''You have already checked out for today, '' @ emp_name emp @ ''.'',
           resp_name = Some (emp_name emp), attendance_type = None, is_late = Some False\<rparr>)"
  using assms by (simp add: attendance_action_def)

lemma attendance_action_break:
  assumes "day_record s (emp_pk emp) (dt_date now) IN = Some i"
    and "day_record s (emp_pk emp) (dt_date now) OUT = None"
    and "dt_time now < OUT_TIME_MIN"
    and "handle_break i (dt_time now) = (bs, act, msg)"
  shows "attendance_action s now emp emo suffix =
         (save_last_seen (save_breaks s i bs) emp now,
          \<lparr>status = Success, http_code = 200, message = msg @ suffix,
           resp_name = Some (emp_name emp), attendance_type = Some act, is_late = Some False\<rparr>)"
  using assms by (simp add: attendance_action_def)


lemma get_jane:
  "get_employee ex_store_closed ''Jane Doe'' = Found ex_jane"
  "get_employee ex_store_office ''Jane Doe'' = Found ex_jane"
  "get_employee ex_store_null_break ''Jane Doe'' = Found ex_jane"
  by (simp_all add: get_employee_def ex_store_defs)

lemma ex_day_records:
  "day_record ex_store_closed 1 (mk_date 2025 6 16) IN = Some ex_in_plain"
  "day_record ex_store_closed 1 (mk_date 2025 6 16) OUT = Some ex_out_plain"
  "day_record ex_store_open 1 (mk_date 2025 6 16) IN = Some ex_in_plain"
  "day_record ex_store_open 1 (mk_date 2025 6 16) OUT = None"
  "day_record ex_store_office 1 (mk_date 2025 6 16) IN = Some ex_in_plain"
  "day_record ex_store_office 1 (mk_date 2025 6 16) OUT = None"
  "day_record ex_store_null_break 1 (mk_date 2025 6 16) IN = Some ex_in_null_break"
  "day_record ex_store_null_break 1 (mk_date 2025 6 16) OUT = None"
  "day_record ex_store_empty 1 (mk_date 2025 6 16) IN = None"
  by (simp_all add: day_record_def comes_before_def date_less_def mk_date_def mk_time_def ex_store_defs)

lemma ex_payload_simps:
  "recognized_name ex_payload = Some ''Jane Doe''"
  "user_latitude ex_payload = None" "user_longitude ex_payload = None"
  "req_emotional_state ex_payload = None"
  "recognized_name ex_payload_geo = Some ''Jane Doe''"
  "user_latitude ex_payload_geo = Some (Num 0)" "user_longitude ex_payload_geo = Some (Num (1 / 100))"
  "req_emotional_state ex_payload_geo = None"
  "emp_pk ex_jane = 1" "emp_name ex_jane = ''Jane Doe''" "last_seen ex_jane = None"
  by (simp_all add: ex_payload_def ex_payload_geo_def ex_jane_def)

lemma combine_sel: "dt_date (combine d t) = d" "dt_time (combine d t) = t"
  by (simp_all add: combine_def)


lemma first_of_member: "first_of P rs = Some r \<Longrightarrow> r \<in> set rs \<and> P r"
  by (induction rs arbitrary: r) (auto split: option.splits if_splits)

lemma day_record_member: "day_record s e d t = Some r \<Longrightarrow> r \<in> set (records s)"
  by (auto simp: day_record_def dest: first_of_member)

lemma handle_break_well_formed:
  assumes "case breaks r of None \<Rightarrow> True | Some bs \<Rightarrow> well_formed_breaks bs"
  shows "well_formed_breaks (fst (handle_break r t))"
proof (cases "breaks r")
  case None
  then show ?thesis
    by (simp add: handle_break_def last_break_def well_formed_breaks_def new_break_def)
next
  case (Some bs)
  with assms have wf: "list_all (\<lambda>b. \<not> is_open b) (butlast bs)" "list_all (\<lambda>b. break_in b \<noteq> None) bs"
    by (simp_all add: well_formed_breaks_def)
  show ?thesis
  proof (cases "bs = []")
    case True
    with Some show ?thesis
      by (simp add: handle_break_def last_break_def well_formed_breaks_def new_break_def)
  next
    case False
    then have split: "bs = butlast bs @ [last bs]" by simp
    from wf(2) False have bi: "break_in (last bs) \<noteq> None"
      by (simp add: list_all_iff)
    from wf(2) have bl: "list_all (\<lambda>b. break_in b \<noteq> None) (butlast bs)"
      by (auto simp: list_all_iff dest: in_set_butlastD)
    show ?thesis
    proof (cases "break_out (last bs) = None")
      case True
      with Some False bi wf(1) bl show ?thesis
        by (simp add: handle_break_def last_break_def well_formed_breaks_def)
    next
      case c: False
      have "list_all (\<lambda>b. \<not> is_open b) bs"
        by (subst split) (use wf(1) c in \<open>simp add: is_open_def\<close>)
      with Some False bi c wf(2) show ?thesis
        by (auto simp: handle_break_def last_break_def well_formed_breaks_def new_break_def)
    qed
  qed
qed

lemma save_breaks_well_formed:
  assumes "well_formed_store s" "well_formed_breaks bs"
  shows "well_formed_store (save_breaks s r bs)"
  using assms by (auto simp: well_formed_store_def save_breaks_def list_all_iff)

lemma save_last_seen_well_formed:
  "well_formed_store (save_last_seen s emp now) = well_formed_store s"
  by (simp add: well_formed_store_def save_last_seen_def)

lemma create_well_formed:
  "well_formed_store s \<Longrightarrow> well_formed_store (create_attendance_record s now emp t rem emo)"
  by (simp add: create_attendance_record_def Let_def save_last_seen_well_formed)
     (simp add: well_formed_store_def)

lemma attendance_action_well_formed:
  assumes "well_formed_store s"
  shows "well_formed_store (fst (attendance_action s now emp emo suffix))"
proof (cases "day_record s (emp_pk emp) (dt_date now) IN")
  case None
  then show ?thesis
    using assms by (simp add: attendance_action_def Let_def save_last_seen_well_formed create_well_formed)
next
  case (Some i)
  then have "i \<in> set (records s)" by (rule day_record_member)
  with assms have wi: "case breaks i of None \<Rightarrow> True | Some bs \<Rightarrow> well_formed_breaks bs"
    by (simp add: well_formed_store_def list_all_iff)
  show ?thesis
  proof (cases "day_record s (emp_pk emp) (dt_date now) OUT")
    case out: (Some out)
    show ?thesis
      using assms by (simp add: attendance_action_checked_out [OF Some out] save_last_seen_well_formed)
  next
    case None
    show ?thesis
    proof (cases "dt_time now < OUT_TIME_MIN")
      case True
      obtain bs act msg where hb: "handle_break i (dt_time now) = (bs, act, msg)"
        by (cases "handle_break i (dt_time now)") auto
      with handle_break_well_formed [OF wi, of "dt_time now"] have "well_formed_breaks bs" by simp
      with assms show ?thesis
        by (simp add: attendance_action_break [OF Some None True hb] save_last_seen_well_formed
                      save_breaks_well_formed)
    next
      case False
      with Some None assms show ?thesis
        by (simp add: attendance_action_def Let_def save_last_seen_well_formed create_well_formed)
    qed
  qed
qed

lemma mark_well_formed:
  assumes "well_formed_store s"
  shows "well_formed_store (fst (mark_attendance_with_gesture geodesic s now request_body))"
  using assms
  by (auto simp: mark_attendance_with_gesture_def attendance_action_well_formed
           split: body.splits option.splits lookup.splits geo_check.splits)

lemma reachable_well_formed: "reachable s \<Longrightarrow> well_formed_store s"
proof (induction rule: reachable.induct)
  case (start s)
  then show ?case by (simp add: well_formed_store_def)
next
  case (step s geodesic now request_body)
  from step.IH show ?case by (rule mark_well_formed)
qed

lemma well_formed_breaks_open:
  assumes "well_formed_breaks bs"
  shows "length (filter is_open bs) \<le> 1"
    and "\<forall>i<length bs. is_open (bs ! i) \<longrightarrow> Suc i = length bs"
proof -
  from assms have c: "list_all (\<lambda>b. \<not> is_open b) (butlast bs)" by (simp add: well_formed_breaks_def)
  show "length (filter is_open bs) \<le> 1"
  proof (cases "bs = []")
    case True then show ?thesis by simp
  next
    case False
    then have "bs = butlast bs @ [last bs]" by simp
    then have "filter is_open bs = filter is_open (butlast bs) @ filter is_open [last bs]"
      by (metis filter_append)
    moreover from c have "filter is_open (butlast bs) = []" by (simp add: list_all_iff filter_empty_conv)
    ultimately show ?thesis by simp
  qed
  show "\<forall>i<length bs. is_open (bs ! i) \<longrightarrow> Suc i = length bs"
  proof (intro allI impI)
    fix i assume i: "i < length bs" and o: "is_open (bs ! i)"
    show "Suc i = length bs"
    proof (rule ccontr)
      assume "Suc i \<noteq> length bs"
      with i have l: "i < length (butlast bs)" by simp
      then have "butlast bs ! i = bs ! i" by (simp add: nth_butlast)
      moreover from c l have "\<not> is_open (butlast bs ! i)" by (simp add: list_all_length)
      ultimately show False using o by simp
    qed
  qed
qed


lemmas machine_defs =
  mark_attendance_with_gesture_def get_employee_def geofence_def attendance_action_def
  create_attendance_record_def save_last_seen_def save_breaks_def new_pk_def handle_break_def
  last_break_def new_break_def is_lunch_time_def capitalize_def
  IN_TIME_END_def OUT_TIME_MIN_def LUNCH_TIME_START_def LUNCH_TIME_END_def

lemma ex_step_in:
  "fst (mark_attendance_with_gesture ex_geodesic ex_store_empty
          (combine (mk_date 2025 6 16) (mk_time 9 50)) (Payload ex_payload)) = ex_store_in"
  by (simp add: machine_defs day_record_def comes_before_def date_less_def combine_def
                mk_date_def mk_time_def ex_store_defs)

lemma ex_step_lunch:
  "fst (mark_attendance_with_gesture ex_geodesic ex_store_in
          (combine (mk_date 2025 6 16) (mk_time 13 45)) (Payload ex_payload)) = ex_store_lunch"
  by (simp add: machine_defs day_record_def comes_before_def date_less_def combine_def
                mk_date_def mk_time_def ex_store_defs)

lemma ex_reachable: "reachable ex_store_in" "reachable ex_store_lunch"
proof -
  have "reachable ex_store_empty" by (rule reachable.start) (simp add: ex_store_empty_def)
  from reachable.step [OF this] show r: "reachable ex_store_in" unfolding ex_step_in [symmetric] .
  from reachable.step [OF r] show "reachable ex_store_lunch" unfolding ex_step_lunch [symmetric] .
qed


lemma reachable_breaks_open:
  assumes "reachable s" and "r \<in> set (records s)" and "breaks r = Some bs"
  shows "length (filter is_open bs) \<le> 1 \<and>
         (\<forall>i<length bs. is_open (bs ! i) \<longrightarrow> Suc i = length bs)"
proof -
  from reachable_well_formed [OF assms(1)] assms(2,3) have w: "well_formed_breaks bs"
    by (auto simp: well_formed_store_def list_all_iff)
  from well_formed_breaks_open [OF w] show ?thesis by (rule conjI)
qed

lemma well_formed_all_closed:
  assumes "well_formed_breaks bs" and "\<not> (bs \<noteq> [] \<and> is_open (last bs))"
  shows "filter is_open bs = []"
proof (cases "bs = []")
  case True then show ?thesis by simp
next
  case ne: False
  then have "bs = butlast bs @ [last bs]" by simp
  then have "filter is_open bs = filter is_open (butlast bs) @ filter is_open [last bs]"
    by (metis filter_append)
  moreover from assms(1) have "filter is_open (butlast bs) = []"
    by (simp add: well_formed_breaks_def list_all_iff filter_empty_conv)
  moreover from assms(2) ne have "\<not> is_open (last bs)" by simp
  ultimately show ?thesis by simp
qed

lemma reachable_break_toggle:
  assumes "reachable s"
    and "recognized_name data = Some name" and "name \<noteq> []" and "name \<noteq> ''Unknown''"
    and "get_employee s name = Found emp"
    and "geofence geodesic (office s) (user_latitude data) (user_longitude data) = Proceed suffix"
    and i: "day_record s (emp_pk emp) (dt_date now) IN = Some in_record"
    and out: "day_record s (emp_pk emp) (dt_date now) OUT = None"
    and lt: "dt_time now < OUT_TIME_MIN"
    and bs: "bs = (case breaks in_record of None \<Rightarrow> [] | Some bs \<Rightarrow> bs)"
    and m: "mark_attendance_with_gesture geodesic s now (Payload data) = (s', resp)"
  shows "if bs \<noteq> [] \<and> is_open (last bs)
         then attendance_type resp = Some BREAK_OUT \<and>
              records s' =
                map (\<lambda>r. if ar_pk r = ar_pk in_record
                          then r\<lparr>breaks := Some (butlast bs
                                     @ [(last bs)\<lparr>break_out := Some (dt_time now)\<rparr>])\<rparr>
                          else r) (records s)
         else filter is_open bs = [] \<and>
              attendance_type resp = Some BREAK_IN \<and>
              records s' =
                map (\<lambda>r. if ar_pk r = ar_pk in_record
                          then r\<lparr>breaks := Some (bs @ [new_break (dt_time now)])\<rparr>
                          else r) (records s)"
proof -
  note wf = reachable_well_formed [OF assms(1)]
  from day_record_member [OF i] wf
  have "case breaks in_record of None \<Rightarrow> True | Some bs \<Rightarrow> well_formed_breaks bs"
    by (simp add: well_formed_store_def list_all_iff)
  then have w: "well_formed_breaks bs"
    by (cases "breaks in_record") (simp_all add: bs well_formed_breaks_def)
  have a: "attendance_action s now emp (req_emotional_state data) suffix = (s', resp)"
    using mark_recognized [OF assms(2-5), of geodesic now] assms(6) m by simp
  show ?thesis
  proof (cases "bs \<noteq> [] \<and> is_open (last bs)")
    case True
    with w have "break_in (last bs) \<noteq> None"
      by (simp add: well_formed_breaks_def list_all_iff)
    with True have hb: "handle_break in_record (dt_time now)
        = (butlast bs @ [(last bs)\<lparr>break_out := Some (dt_time now)\<rparr>], BREAK_OUT,
           capitalize (break_type (last bs)) @ '' Break Out recorded.'')"
      by (simp add: handle_break_def last_break_def bs [symmetric] is_open_def)
    from True a show ?thesis
      by (auto simp: attendance_action_break [OF i out lt hb] save_last_seen_simps save_breaks_simps)
  next
    case False
    have hb: "handle_break in_record (dt_time now)
        = (bs @ [new_break (dt_time now)], BREAK_IN,
           capitalize (break_type (new_break (dt_time now))) @ '' Break In recorded.'')"
      using False
      by (auto simp: handle_break_def last_break_def bs [symmetric] is_open_def
               split: option.splits)
    from False a well_formed_all_closed [OF w False] show ?thesis
      by (auto simp: attendance_action_break [OF i out lt hb] save_last_seen_simps save_breaks_simps)
  qed
qed


section \<open>Facts about the presence trend\<close>

lemma and_then_Inr: "and_then x f = Inr v \<Longrightarrow> \<exists>u. x = Inr u \<and> f u = Inr v"
  by (cases x) (simp_all add: and_then_def)

lemma add_days_valid:
  assumes "valid_date d" "add_days d n = Inr d'"
  shows "valid_date d'" and "toordinal d' = toordinal d + n"
proof -
  from assms(2) have r: "1 \<le> toordinal d + n" "toordinal d + n \<le> max_ordinal"
    by (auto simp: add_days_def Let_def split: if_splits)
  from add_days_ok [OF assms(1) r] assms(2)
  show "valid_date d'" and "toordinal d' = toordinal d + n" by auto
qed

lemma next_day_key:
  assumes "valid_date d"
  shows "[year d, month d, day d] < [year (next_day d), month (next_day d), day (next_day d)]"
  using assms by (auto simp: next_day_def valid_date_def mk_date_sel)

lemma add_days_one: "add_days d 1 = Inr d' \<Longrightarrow> d' = next_day d"
  by (auto simp: add_days_def Let_def split: if_splits)

lemma add_days_dec_9999: "add_days (mk_date 9999 12 28) 4 = Inl OverflowError"
proof -
  have "toordinal (mk_date 9999 12 28) = 3652056"
    by (simp add: toordinal_def mk_date_sel days_before_year_def dbm_values is_leap_def)
  then show ?thesis by (simp add: add_days_def max_ordinal_def)
qed

lemma replace_Inr: "replace d y m k = Inr d' \<Longrightarrow> d' = mk_date y m k \<and> valid_date d'"
  by (auto simp: replace_def split: if_splits)

lemma bucket_step:
  assumes v: "valid_date cur" and b: "bucket interval cur end_date = Inr (key, days, next)"
  shows "key = bucket_key interval cur" and "valid_date next"
    and "bucket_key interval cur < bucket_key interval next"
proof -
  consider (daily) "interval = ''daily''" | (monthly) "interval \<noteq> ''daily''" "interval = ''monthly''"
    | (yearly) "interval \<noteq> ''daily''" "interval \<noteq> ''monthly''" by blast
  then have "key = bucket_key interval cur \<and> valid_date next \<and>
             bucket_key interval cur < bucket_key interval next"
  proof cases
    case daily
    with b obtain n where n: "add_days cur 1 = Inr n" and e: "key = bucket_key interval cur" "next = n"
      by (auto simp: bucket_def dest!: and_then_Inr)
    from add_days_valid(1) [OF v n] add_days_one [OF n] next_day_key [OF v] e daily
    show ?thesis by (simp add: bucket_key_def)
  next
    case monthly
    with b obtain ds d28 d32 where
      d28: "replace cur (year cur) (month cur) 28 = Inr d28" and
      d32: "add_days d28 4 = Inr d32" and
      nx: "replace d32 (year d32) (month d32) 1 = Inr next" and
      e: "key = bucket_key interval cur"
      by (auto simp: bucket_def Let_def dest!: and_then_Inr)
    from replace_Inr [OF d28] have d28': "d28 = mk_date (year cur) (month cur) 28" by simp
    have n9: "\<not> (year cur = 9999 \<and> month cur = 12)"
      using d32 add_days_dec_9999 by (auto simp: d28')
    from first_of_next_month [OF v n9] d32 d28'
    have ym: "year d32 = (if month cur < 12 then year cur else year cur + 1)"
             "month d32 = (if month cur < 12 then month cur + 1 else 1)" by auto
    from replace_Inr [OF nx] have nx': "next = mk_date (year d32) (month d32) 1" "valid_date next"
      by blast+
    from nx' ym e monthly show ?thesis by (simp add: bucket_key_def mk_date_sel)
  next
    case yearly
    with b obtain ds where
      nx: "replace cur (year cur + 1) (month cur) (day cur) = Inr next" and
      e: "key = bucket_key interval cur"
      by (auto simp: bucket_def Let_def dest!: and_then_Inr)
    from replace_Inr [OF nx] have "next = mk_date (year cur + 1) (month cur) (day cur)"
      and "valid_date next" by blast+
    with e yearly show ?thesis by (simp add: bucket_key_def mk_date_sel)
  qed
  then show "key = bucket_key interval cur" and "valid_date next"
    and "bucket_key interval cur < bucket_key interval next" by simp_all
qed

lemma add_counts_fresh:
  "key \<notin> fst ` set data \<Longrightarrow> add_counts data key p a = data @ [(key, (p, a))]"
  by (induction data key p a rule: add_counts.induct) auto


lemma present_count_card:
  "present_count s days
   = int (card (ar_employee ` {r \<in> set (records s). ar_type r = IN \<and> ar_date r \<in> set days}))"
proof -
  have "set (map ar_employee (filter (\<lambda>r. ar_date r \<in> set days \<and> ar_type r = IN) (records s)))
        = ar_employee ` {r \<in> set (records s). ar_type r = IN \<and> ar_date r \<in> set days}"
    by auto
  then show ?thesis
    by (simp only: present_count_def length_remdups_card_conv)
qed

lemma lookup_counts_entry:
  assumes "distinct (map fst data)" "(k, c) \<in> set data"
  shows "lookup_counts data k = c"
  using assms by (simp add: lookup_counts_def)


lemma ex_toordinals:
  "toordinal (mk_date 2025 6 16) = 739418" "toordinal (mk_date 2025 6 17) = 739419"
  by (simp_all add: toordinal_def mk_date_sel days_before_year_def dbm_values is_leap_def)

lemma ex_buckets:
  "bucket ''daily'' (mk_date 2025 6 16) (mk_date 2025 6 17)
     = Inr ([2025, 6, 16], [mk_date 2025 6 16], mk_date 2025 6 17)"
  "bucket ''daily'' (mk_date 2025 6 17) (mk_date 2025 6 17)
     = Inr ([2025, 6, 17], [mk_date 2025 6 17], mk_date 2025 6 18)"
  by (simp_all add: bucket_def bucket_key_def and_then_def add_days_def ex_toordinals max_ordinal_def
        next_day_mk_date dim_values mk_date_sel)

lemma ex_present:
  "present_count ex_store_closed [mk_date 2025 6 16] = 1"
  "present_count ex_store_closed [mk_date 2025 6 17] = 0"
  by (simp_all add: present_count_def ex_store_defs mk_date_def)

lemma ex_trends_loop:
  "trends_loop ex_store_closed ''daily'' (mk_date 2025 6 17) [] (mk_date 2025 6 16)
   = Some (Inr [([2025, 6, 16], (1, 0)), ([2025, 6, 17], (0, 1))])"
proof -
  have le: "date_le (mk_date 2025 6 16) (mk_date 2025 6 17)"
    "date_le (mk_date 2025 6 17) (mk_date 2025 6 17)"
    "\<not> date_le (mk_date 2025 6 18) (mk_date 2025 6 17)"
    by (simp_all add: date_le_def date_less_def mk_date_def)
  have n: "int (length (employees ex_store_closed)) = 1" by (simp add: ex_store_closed_def)
  have 3: "trends_loop ex_store_closed ''daily'' (mk_date 2025 6 17)
             [([2025, 6, 16], (1, 0)), ([2025, 6, 17], (0, 1))] (mk_date 2025 6 18)
           = Some (Inr [([2025, 6, 16], (1, 0)), ([2025, 6, 17], (0, 1))])"
    by (subst trends_loop.simps) (simp add: le)
  have 2: "trends_loop ex_store_closed ''daily'' (mk_date 2025 6 17)
             [([2025, 6, 16], (1, 0))] (mk_date 2025 6 17)
           = Some (Inr [([2025, 6, 16], (1, 0)), ([2025, 6, 17], (0, 1))])"
    by (subst trends_loop.simps) (simp add: le ex_buckets ex_present n 3)
  show ?thesis
    by (subst trends_loop.simps) (simp add: le ex_buckets ex_present n 2)
qed

lemma ex_trends:
  "get_attendance_percentage_trends ex_store_closed (mk_date 2025 6 16) (mk_date 2025 6 17) ''daily''
   = Some (Inr (Trends [[2025, 6, 16], [2025, 6, 17]] [1, 0] [0, 1]))"
  by (simp add: get_attendance_percentage_trends_def ex_trends_loop lookup_counts_def)
     (simp add: ex_store_closed_def)


lemma valid_wf: "valid_date d \<Longrightarrow> wf_md d"
  by (simp add: valid_date_iff)

lemma add_days_iff:
  assumes "valid_date cur"
  shows "(add_days cur n = Inr d) = (valid_date d \<and> toordinal d = toordinal cur + n)"
proof
  assume "add_days cur n = Inr d"
  with add_days_valid [OF assms this] show "valid_date d \<and> toordinal d = toordinal cur + n"
    by simp
next
  assume h: "valid_date d \<and> toordinal d = toordinal cur + n"
  then have r: "1 \<le> toordinal cur + n" "toordinal cur + n \<le> max_ordinal"
    using ordinal_range_iff [OF valid_wf, of d] by (simp_all add: valid_date_iff)
  from add_days_ok [OF assms r] obtain d' where
    d': "add_days cur n = Inr d'" "valid_date d'" "toordinal d' = toordinal cur + n" by blast
  from toordinal_inj [OF valid_wf valid_wf, of d' d] d'(2,3) h have "d' = d" by simp
  with d'(1) show "add_days cur n = Inr d" by simp
qed

lemma days_within_set:
  "days_within cur end_date ks = Inr days \<Longrightarrow>
   set days = {d. \<exists>k\<in>set ks. add_days cur (int k) = Inr d \<and> date_le d end_date}"
proof (induction ks arbitrary: days)
  case Nil
  then show ?case by simp
next
  case (Cons k ks)
  from Cons.prems obtain dk rest where
    dk: "add_days cur (int k) = Inr dk" and rest: "days_within cur end_date ks = Inr rest"
    and days: "days = (if date_le dk end_date then dk # rest else rest)"
    by (auto dest!: and_then_Inr)
  from Cons.IH [OF rest] dk days show ?case by auto
qed

lemma days_within_window:
  assumes v: "valid_date cur" and w: "days_within cur end_date [0..<nat n] = Inr days"
  shows "set days = {d. valid_date d \<and> toordinal cur \<le> toordinal d \<and> toordinal d < toordinal cur + n
                        \<and> date_le d end_date}"
proof -
  have "set days = {d. \<exists>k\<in>set [0..<nat n]. add_days cur (int k) = Inr d \<and> date_le d end_date}"
    by (rule days_within_set [OF w])
  also have "\<dots> = {d. \<exists>k<nat n. valid_date d \<and> toordinal d = toordinal cur + int k \<and> date_le d end_date}"
    by (auto simp: add_days_iff [OF v])
  also have "\<dots> = {d. valid_date d \<and> toordinal cur \<le> toordinal d \<and> toordinal d < toordinal cur + n
                        \<and> date_le d end_date}"
  proof (rule Collect_cong, rule iffI)
    fix d assume "\<exists>k<nat n. valid_date d \<and> toordinal d = toordinal cur + int k \<and> date_le d end_date"
    then show "valid_date d \<and> toordinal cur \<le> toordinal d \<and> toordinal d < toordinal cur + n
                 \<and> date_le d end_date" by auto
  next
    fix d assume h: "valid_date d \<and> toordinal cur \<le> toordinal d \<and> toordinal d < toordinal cur + n
                 \<and> date_le d end_date"
    then have "nat (toordinal d - toordinal cur) < nat n"
      and "toordinal d = toordinal cur + int (nat (toordinal d - toordinal cur))" by auto
    with h show "\<exists>k<nat n. valid_date d \<and> toordinal d = toordinal cur + int k \<and> date_le d end_date"
      by blast
  qed
  finally show ?thesis .
qed

lemma bucket_days:
  assumes v: "valid_date cur" and le: "date_le cur end_date"
    and b: "bucket interval cur end_date = Inr (key, days, next)"
  shows "set days = {d. checked_day interval cur end_date d}"
proof -
  consider (daily) "interval = ''daily''" | (monthly) "interval \<noteq> ''daily''" "interval = ''monthly''"
    | (yearly) "interval \<noteq> ''daily''" "interval \<noteq> ''monthly''" by blast
  then show ?thesis
  proof cases
    case daily
    with b have d: "days = [cur]" by (auto simp: bucket_def dest!: and_then_Inr)
    have "{d. checked_day interval cur end_date d} = {cur}"
    proof (rule set_eqI, rule iffI)
      fix d assume "d \<in> {d. checked_day interval cur end_date d}"
      then have "valid_date d" "toordinal d = toordinal cur"
        using daily by (auto simp: checked_day_def window_length_def)
      with toordinal_inj [OF valid_wf valid_wf, of d cur] v show "d \<in> {cur}" by simp
    next
      fix d assume "d \<in> {cur}"
      with v le daily show "d \<in> {d. checked_day interval cur end_date d}"
        by (simp add: checked_day_def window_length_def)
    qed
    with d show ?thesis by simp
  next
    case monthly
    with b have "days_within cur end_date [0..<nat (days_in_month (year cur) (month cur))] = Inr days"
      by (auto simp: bucket_def Let_def dest!: and_then_Inr)
    from days_within_window [OF v this] monthly show ?thesis
      by (simp add: checked_day_def window_length_def)
  next
    case yearly
    with b have "days_within cur end_date [0..<nat (365 + (if is_leap (year cur) then 1 else 0))] = Inr days"
      by (auto simp: bucket_def Let_def dest!: and_then_Inr)
    from days_within_window [OF v this] yearly show ?thesis
      by (simp add: checked_day_def window_length_def)
  qed
qed


lemma date_eqI: "year a = year b \<Longrightarrow> month a = month b \<Longrightarrow> day a = day b \<Longrightarrow> (a::date) = b"
  by (cases a; cases b) simp

lemma toordinal_same_month:
  "year d = year c \<Longrightarrow> month d = month c \<Longrightarrow> toordinal d = toordinal c + (day d - day c)"
  by (simp add: toordinal_def)

lemma month_window:
  assumes c: "valid_date c" "day c = 1" and d: "valid_date d"
  shows "(toordinal c \<le> toordinal d \<and> toordinal d < toordinal c + days_in_month (year c) (month c))
         = (year d = year c \<and> month d = month c)"
proof
  assume "year d = year c \<and> month d = month c"
  then have e: "year d = year c" "month d = month c" by simp_all
  from d e have "1 \<le> day d" "day d \<le> days_in_month (year c) (month c)"
    by (simp_all add: valid_date_def)
  with toordinal_same_month [OF e] c(2)
  show "toordinal c \<le> toordinal d \<and> toordinal d < toordinal c + days_in_month (year c) (month c)"
    by simp
next
  assume h: "toordinal c \<le> toordinal d \<and> toordinal d < toordinal c + days_in_month (year c) (month c)"
  define k where "k = toordinal d - toordinal c"
  let ?e = "mk_date (year c) (month c) (1 + k)"
  from h have k: "0 \<le> k" "k < days_in_month (year c) (month c)" by (simp_all add: k_def)
  from c(1) k have we: "wf_md ?e" by (simp add: wf_md_def valid_date_def mk_date_sel)
  have "toordinal ?e = toordinal c + k"
    using toordinal_same_month [of ?e c] c(2) by (simp add: mk_date_sel)
  then have "toordinal ?e = toordinal d" by (simp add: k_def)
  from toordinal_inj [OF we valid_wf [OF d] this] have "d = ?e" by simp
  then have "year d = year ?e" "month d = month ?e" by simp_all
  then show "year d = year c \<and> month d = month c" by (simp add: mk_date_sel)
qed

lemma year_window:
  assumes c: "valid_date c" "month c = 1" "day c = 1" and d: "valid_date d"
  shows "(toordinal c \<le> toordinal d
          \<and> toordinal d < toordinal c + (365 + (if is_leap (year c) then 1 else 0)))
         = (year d = year c)"
proof -
  have oc: "toordinal c = days_before_year (year c) + 1"
    using c(2,3) by (simp add: toordinal_def dbm_values)
  have nx: "days_before_year (year c + 1)
            = days_before_year (year c) + (365 + (if is_leap (year c) then 1 else 0))"
    using dby_step [of "year c"] by simp
  note bd = toordinal_year_bounds [OF valid_wf [OF d]]
  show ?thesis
  proof
    assume "year d = year c"
    with bd oc nx show "toordinal c \<le> toordinal d
          \<and> toordinal d < toordinal c + (365 + (if is_leap (year c) then 1 else 0))"
      by simp
  next
    assume h: "toordinal c \<le> toordinal d
          \<and> toordinal d < toordinal c + (365 + (if is_leap (year c) then 1 else 0))"
    show "year d = year c"
    proof (rule ccontr)
      assume "year d \<noteq> year c"
      then consider "year d < year c" | "year c < year d" by linarith
      then show False
      proof cases
        case 1
        then have "days_before_year (year d + 1) \<le> days_before_year (year c)"
          by (intro dby_mono) simp
        with bd(2) h oc show False by linarith
      next
        case 2
        then have "days_before_year (year c + 1) \<le> days_before_year (year d)"
          by (intro dby_mono) simp
        with bd(1) h oc nx show False by linarith
      qed
    qed
  qed
qed

lemma aligned_window:
  assumes c: "valid_date c"
    and sh: "interval = ''daily'' \<or> (interval = ''monthly'' \<and> day c = 1)
             \<or> (interval \<noteq> ''monthly'' \<and> month c = 1 \<and> day c = 1)"
  shows "checked_day interval c end_date d
         = (valid_date d \<and> bucket_key interval d = bucket_key interval c \<and> date_le d end_date)"
proof (cases "valid_date d")
  case False
  then show ?thesis by (simp add: checked_day_def)
next
  case d: True
  consider (daily) "interval = ''daily''" | (monthly) "interval \<noteq> ''daily''" "interval = ''monthly''"
    | (yearly) "interval \<noteq> ''daily''" "interval \<noteq> ''monthly''" by blast
  then show ?thesis
  proof cases
    case daily
    have "(toordinal c \<le> toordinal d \<and> toordinal d < toordinal c + 1) = (d = c)"
      using toordinal_inj [OF valid_wf [OF d] valid_wf [OF c]] by auto
    moreover have "(bucket_key interval d = bucket_key interval c) = (d = c)"
      using daily by (auto simp: bucket_key_def intro: date_eqI)
    ultimately show ?thesis using d daily by (auto simp: checked_day_def window_length_def)
  next
    case monthly
    with sh have "day c = 1" by simp
    from month_window [OF c this d] d monthly show ?thesis
      by (auto simp: checked_day_def window_length_def bucket_key_def)
  next
    case yearly
    with sh have "month c = 1" "day c = 1" by simp_all
    from year_window [OF c this d] d yearly show ?thesis
      by (auto simp: checked_day_def window_length_def bucket_key_def)
  qed
qed


lemma pass_start_of:
  assumes "is_start interval start_date c"
  shows "pass_start interval start_date (bucket_key interval c) = c"
proof (cases "c = start_date")
  case True
  then show ?thesis by (simp add: pass_start_def)
next
  case False
  with assms have l: "later_start interval start_date c" by (simp add: is_start_def)
  then have ne: "bucket_key interval c \<noteq> bucket_key interval start_date"
    by (auto simp: later_start_def)
  have ps: "pass_start interval start_date (bucket_key interval c)
            = (case bucket_key interval c of
                 [y, m, d] \<Rightarrow> mk_date y m d
               | [y, m] \<Rightarrow> mk_date y m 1
               | [y] \<Rightarrow> mk_date y (month start_date) (day start_date)
               | _ \<Rightarrow> start_date)"
    by (simp only: pass_start_def ne if_False)
  consider (daily) "interval = ''daily''" | (monthly) "interval \<noteq> ''daily''" "interval = ''monthly''"
    | (yearly) "interval \<noteq> ''daily''" "interval \<noteq> ''monthly''" by blast
  then show ?thesis
  proof cases
    case daily
    then have "pass_start interval start_date (bucket_key interval c)
               = mk_date (year c) (month c) (day c)"
      unfolding ps by (simp add: bucket_key_def)
    then show ?thesis by (simp add: mk_date_def)
  next
    case monthly
    with l have "day c = 1" by (simp add: later_start_def)
    moreover from monthly have "pass_start interval start_date (bucket_key interval c)
               = mk_date (year c) (month c) 1"
      unfolding ps by (simp add: bucket_key_def)
    ultimately show ?thesis by (auto simp: mk_date_sel intro: date_eqI)
  next
    case yearly
    with l have "month c = month start_date" "day c = day start_date"
      by (simp_all add: later_start_def)
    moreover from yearly have "pass_start interval start_date (bucket_key interval c)
               = mk_date (year c) (month start_date) (day start_date)"
      unfolding ps by (simp add: bucket_key_def)
    ultimately show ?thesis by (auto simp: mk_date_sel intro: date_eqI)
  qed
qed

lemma is_start_aligned:
  assumes "aligned interval start_date" "is_start interval start_date c"
  shows "interval = ''daily'' \<or> (interval = ''monthly'' \<and> day c = 1)
         \<or> (interval \<noteq> ''monthly'' \<and> month c = 1 \<and> day c = 1)"
  using assms by (auto simp: aligned_def is_start_def later_start_def)

lemma bucket_next_shape:
  assumes v: "valid_date cur" and b: "bucket interval cur end_date = Inr (key, days, next)"
  shows "interval = ''daily'' \<or> (interval = ''monthly'' \<and> day next = 1)
         \<or> (interval \<noteq> ''daily'' \<and> interval \<noteq> ''monthly''
             \<and> month next = month cur \<and> day next = day cur)"
proof -
  consider (daily) "interval = ''daily''" | (monthly) "interval \<noteq> ''daily''" "interval = ''monthly''"
    | (yearly) "interval \<noteq> ''daily''" "interval \<noteq> ''monthly''" by blast
  then show ?thesis
  proof cases
    case daily then show ?thesis by simp
  next
    case monthly
    with b obtain d32 where "replace d32 (year d32) (month d32) 1 = Inr next"
      by (auto simp: bucket_def Let_def dest!: and_then_Inr)
    from replace_Inr [OF this] have "next = mk_date (year d32) (month d32) 1" by blast
    with monthly show ?thesis by (simp add: mk_date_sel)
  next
    case yearly
    with b have "replace cur (year cur + 1) (month cur) (day cur) = Inr next"
      by (auto simp: bucket_def Let_def dest!: and_then_Inr)
    from replace_Inr [OF this] have "next = mk_date (year cur + 1) (month cur) (day cur)" by blast
    with yearly show ?thesis by (simp add: mk_date_sel)
  qed
qed

lemma bucket_next_start:
  assumes st: "is_start interval start_date cur"
    and b: "bucket interval cur end_date = Inr (key, days, next)"
  shows "is_start interval start_date next"
proof -
  from st have v: "valid_date cur" by (simp add: is_start_def)
  note s = bucket_step [OF v b]
  note sh = bucket_next_shape [OF v b]
  from st have le: "bucket_key interval start_date \<le> bucket_key interval cur"
    by (auto simp: is_start_def later_start_def)
  with s(3) have lt: "bucket_key interval start_date < bucket_key interval next" by simp
  from st have md: "interval \<noteq> ''daily'' \<and> interval \<noteq> ''monthly'' \<longrightarrow>
                      month cur = month start_date \<and> day cur = day start_date"
    by (auto simp: is_start_def later_start_def)
  from sh md lt have "later_start interval start_date next"
    by (auto simp: later_start_def)
  with s(2) show ?thesis by (simp add: is_start_def)
qed

lemma bucket_present:
  assumes v: "valid_date cur" and le: "date_le cur end_date"
    and b: "bucket interval cur end_date = Inr (key, days, next)"
  shows "(key, present_count s days, int (length (employees s)) - present_count s days)
         = pass_entry s interval end_date cur"
proof -
  have "present_count s days
        = int (card (ar_employee ` {r \<in> set (records s).
                       ar_type r = IN \<and> checked_day interval cur end_date (ar_date r)}))"
    unfolding present_count_card using bucket_days [OF v le b] by simp
  with bucket_step(1) [OF v b] show ?thesis by (simp add: pass_entry_def)
qed

lemma trends_loop_passes_aux:
  assumes "trends_loop s interval end_date data cur = Some (Inr out)"
    and "is_start interval start_date cur"
    and "\<forall>k\<in>fst ` set data. k < bucket_key interval cur"
    and "distinct (map fst data)"
    and "\<forall>e\<in>set data. \<exists>c. is_start interval start_date c \<and> e = pass_entry s interval end_date c"
  shows "distinct (map fst out) \<and>
         (\<forall>e\<in>set out. \<exists>c. is_start interval start_date c \<and> e = pass_entry s interval end_date c)"
proof -
  define P where "P = (\<lambda>s interval end_date (data :: trends_data) cur (y :: error + trends_data).
      \<forall>out. y = Inr out \<longrightarrow> is_start interval start_date cur \<longrightarrow>
        (\<forall>k\<in>fst ` set data. k < bucket_key interval cur) \<longrightarrow>
        distinct (map fst data) \<longrightarrow>
        (\<forall>e\<in>set data. \<exists>c. is_start interval start_date c \<and> e = pass_entry s interval end_date c) \<longrightarrow>
        distinct (map fst out) \<and>
        (\<forall>e\<in>set out. \<exists>c. is_start interval start_date c \<and> e = pass_entry s interval end_date c))"
  have "P s interval end_date data cur (Inr out)"
  proof (rule trends_loop.raw_induct [where P = P, OF _ assms(1)])
    fix loop s interval end_date data cur y
    assume IH: "\<And>s interval end_date data cur y.
                  loop s interval end_date data cur = Some y \<Longrightarrow> P s interval end_date data cur y"
      and body: "(if date_le cur end_date
                  then case bucket interval cur end_date of
                         Inl e \<Rightarrow> Some (Inl e)
                       | Inr (key, days_to_check, next_date) \<Rightarrow>
                           let present = present_count s days_to_check;
                               absent = int (length (employees s)) - present
                           in loop s interval end_date (add_counts data key present absent) next_date
                  else Some (Inr data)) = Some y"
    show "P s interval end_date data cur y"
      unfolding P_def
    proof (intro allI impI)
      fix out
      assume y: "y = Inr out" and st: "is_start interval start_date cur"
        and lt: "\<forall>k\<in>fst ` set data. k < bucket_key interval cur"
        and d: "distinct (map fst data)"
        and ok: "\<forall>e\<in>set data. \<exists>c. is_start interval start_date c
                                    \<and> e = pass_entry s interval end_date c"
      from st have v: "valid_date cur" by (simp add: is_start_def)
      show "distinct (map fst out) \<and>
            (\<forall>e\<in>set out. \<exists>c. is_start interval start_date c \<and> e = pass_entry s interval end_date c)"
      proof (cases "date_le cur end_date")
        case False
        with body y have "out = data" by simp
        with d ok show ?thesis by simp
      next
        case True
        show ?thesis
        proof (cases "bucket interval cur end_date")
          case (Inl e)
          with True body y show ?thesis by simp
        next
          case (Inr t)
          obtain key days nxt where t: "t = (key, days, nxt)" by (cases t) auto
          note b = Inr [unfolded t]
          note step = bucket_step [OF v b]
          let ?p = "present_count s days"
          let ?a = "int (length (employees s)) - ?p"
          from lt step(1) have fresh: "key \<notin> fst ` set data" by auto
          then have ac: "add_counts data key ?p ?a = data @ [(key, (?p, ?a))]"
            by (rule add_counts_fresh)
          from True b body ac
          have rec: "loop s interval end_date (data @ [(key, (?p, ?a))]) nxt = Some y"
            by (simp add: Let_def)
          have lt': "\<forall>k\<in>fst ` set (data @ [(key, (?p, ?a))]). k < bucket_key interval nxt"
            using lt step(1,3) by (auto intro: less_trans)
          have d': "distinct (map fst (data @ [(key, (?p, ?a))]))"
            using d fresh by simp
          have "(key, (?p, ?a)) = pass_entry s interval end_date cur"
            by (rule bucket_present [OF v True b])
          with st ok
          have ok': "\<forall>e\<in>set (data @ [(key, (?p, ?a))]).
                       \<exists>c. is_start interval start_date c \<and> e = pass_entry s interval end_date c"
            by auto
          note st' = bucket_next_start [OF st b]
          from IH [OF rec, unfolded P_def] y st' lt' d' ok' show ?thesis by blast
        qed
      qed
    qed
  qed
  with assms(2-5) show ?thesis unfolding P_def by blast
qed

lemma trends_loop_passes:
  assumes "trends_loop s interval end_date [] start_date = Some (Inr out)" and "valid_date start_date"
  shows "distinct (map fst out)"
    and "\<forall>e\<in>set out. \<exists>c. is_start interval start_date c \<and> e = pass_entry s interval end_date c"
proof -
  have "is_start interval start_date start_date" using assms(2) by (simp add: is_start_def)
  from trends_loop_passes_aux [OF assms(1) this]
  show "distinct (map fst out)"
    and "\<forall>e\<in>set out. \<exists>c. is_start interval start_date c \<and> e = pass_entry s interval end_date c"
    by simp_all
qed


lemma key_less_date_less: "bucket_key interval a < bucket_key interval b \<Longrightarrow> date_less a b"
  by (auto simp: bucket_key_def date_less_def split: if_splits)

lemma trends_loop_returns:
  assumes "valid_date cur" and e: "valid_date end_date"
  shows "\<exists>r. trends_loop s interval end_date data cur = Some r"
  using assms(1)
proof (induction "nat (toordinal end_date + 1 - toordinal cur)" arbitrary: data cur rule: less_induct)
  case less
  note v = less.prems
  show ?case
  proof (cases "date_le cur end_date")
    case False
    then show ?thesis by (subst trends_loop.simps) simp
  next
    case True
    then have le: "toordinal cur \<le> toordinal end_date"
      using date_le_iff [OF valid_wf [OF v] valid_wf [OF e]] by simp
    show ?thesis
    proof (cases "bucket interval cur end_date")
      case (Inl err)
      with True show ?thesis by (subst trends_loop.simps) simp
    next
      case (Inr t)
      obtain key days nxt where t: "t = (key, days, nxt)" by (cases t) auto
      note b = Inr [unfolded t]
      note step = bucket_step [OF v b]
      from key_less_date_less [OF step(3)]
      have "toordinal cur < toordinal nxt"
        by (rule date_less_toordinal [OF valid_wf [OF v] valid_wf [OF step(2)]])
      with le have "nat (toordinal end_date + 1 - toordinal nxt)
                    < nat (toordinal end_date + 1 - toordinal cur)" by simp
      from less.hyps [OF this step(2)]
      obtain r where "trends_loop s interval end_date
                        (add_counts data key (present_count s days)
                           (int (length (employees s)) - present_count s days)) nxt = Some r"
        by blast
      with True b show ?thesis by (subst trends_loop.simps) (simp add: Let_def)
    qed
  qed
qed

lemma get_trends_returns:
  assumes "valid_date start_date" "valid_date end_date"
  shows "\<exists>r. get_attendance_percentage_trends s start_date end_date interval = Some r"
proof -
  from trends_loop_returns [OF assms] obtain r where
    "trends_loop s interval end_date [] start_date = Some r" by blast
  then show ?thesis
    by (cases r) (simp_all add: get_attendance_percentage_trends_def Let_def)
qed


lemma ex_february_buckets:
  "(case bucket ''monthly'' (mk_date 2025 1 31) (mk_date 2025 3 15) of
      Inl e \<Rightarrow> False
    | Inr (key, days, next) \<Rightarrow>
        key = [2025, 1] \<and> next = mk_date 2025 2 1 \<and> present_count ex_store_february days = 1)"
  "(case bucket ''monthly'' (mk_date 2025 2 1) (mk_date 2025 3 15) of
      Inl e \<Rightarrow> False
    | Inr (key, days, next) \<Rightarrow>
        key = [2025, 2] \<and> next = mk_date 2025 3 1 \<and> present_count ex_store_february days = 1)"
  "(case bucket ''monthly'' (mk_date 2025 3 1) (mk_date 2025 3 15) of
      Inl e \<Rightarrow> False
    | Inr (key, days, next) \<Rightarrow>
        key = [2025, 3] \<and> next = mk_date 2025 4 1 \<and> present_count ex_store_february days = 0)"
  by code_simp+

lemma ex_february_loop:
  "trends_loop ex_store_february ''monthly'' (mk_date 2025 3 15) [] (mk_date 2025 1 31)
   = Some (Inr [([2025, 1], (1, 0)), ([2025, 2], (1, 0)), ([2025, 3], (0, 1))])"
proof -
  let ?e = "mk_date 2025 3 15"
  have le: "date_le (mk_date 2025 1 31) ?e" "date_le (mk_date 2025 2 1) ?e"
    "date_le (mk_date 2025 3 1) ?e" "\<not> date_le (mk_date 2025 4 1) ?e"
    by (simp_all add: date_le_def date_less_def mk_date_def)
  have n: "int (length (employees ex_store_february)) = 1" by (simp add: ex_store_february_def)
  have 4: "trends_loop ex_store_february ''monthly'' ?e
             [([2025, 1], (1, 0)), ([2025, 2], (1, 0)), ([2025, 3], (0, 1))] (mk_date 2025 4 1)
           = Some (Inr [([2025, 1], (1, 0)), ([2025, 2], (1, 0)), ([2025, 3], (0, 1))])"
    by (subst trends_loop.simps) (simp add: le)
  have 3: "trends_loop ex_store_february ''monthly'' ?e
             [([2025, 1], (1, 0)), ([2025, 2], (1, 0))] (mk_date 2025 3 1)
           = Some (Inr [([2025, 1], (1, 0)), ([2025, 2], (1, 0)), ([2025, 3], (0, 1))])"
    using ex_february_buckets(3)
    by (subst trends_loop.simps) (auto simp: le n 4 split: sum.splits)
  have 2: "trends_loop ex_store_february ''monthly'' ?e [([2025, 1], (1, 0))] (mk_date 2025 2 1)
           = Some (Inr [([2025, 1], (1, 0)), ([2025, 2], (1, 0)), ([2025, 3], (0, 1))])"
    using ex_february_buckets(2)
    by (subst trends_loop.simps) (auto simp: le n 3 split: sum.splits)
  show ?thesis
    using ex_february_buckets(1)
    by (subst trends_loop.simps) (auto simp: le n 2 split: sum.splits)
qed

lemma ex_february_trends:
  "get_attendance_percentage_trends ex_store_february (mk_date 2025 1 31) (mk_date 2025 3 15) ''monthly''
   = Some (Inr (Trends [[2025, 1], [2025, 2], [2025, 3]] [1, 1, 0] [0, 0, 1]))"
  by (simp add: get_attendance_percentage_trends_def ex_february_loop lookup_counts_def)
     (simp add: ex_store_february_def)


section \<open>Facts about the summary and the report rows\<close>

lemma summary_rows_threshold:
  "x \<noteq> 0 \<Longrightarrow>
   map row_employee (summary_rows s now (Some x) rs)
   = map snd (filter (\<lambda>(r, e). fst (calculate_working_hours s now (emp_pk e) (ar_date r)) < x) rs)"
  by (induction rs) (auto simp: split_beta)

lemma summary_rows_no_threshold:
  "map row_employee (summary_rows s now None rs) = map snd rs"
  "map row_employee (summary_rows s now (Some 0) rs) = map snd rs"
  by (induction rs) (auto simp: split_beta)

lemma ex_out_time: "rep_out_time ex_row_open = ''In progress...''"
  by (simp add: ex_row_open_def out_time_str_def date_less_def)

lemma strptime_in_progress: "strptime_time ''In progress...'' = Inl ValueError"
  by (simp add: strptime_time_def parse_hour_12_def)

lemma strptime_hours: "strptime_time ''0.00 hours'' = Inl ValueError"
  by (simp add: strptime_time_def parse_hour_12_def)

lemma sort_by_overtime_hours_raises:
  "sorted_records py_float ''overtime_hours'' sort_order [ex_row_open] = Inl ValueError"
  by (simp add: sorted_records_def dynamic_sort_key_def sort_by_map_def and_then_def
                strptime_hours ex_row_open_def)

section \<open>Properties of the working hours\<close>

text \<open>
  C1. The claim is that the worked hours are never negative, also when the closed breaks
  add up to more than the span from the IN time to the end instant. The code guards only
  the order of start and end and then subtracts the break seconds: for a day with IN at
  10:00, OUT at 10:30 and a closed break from 10:00 to 11:00 it returns minus half an hour.
\<close>

theorem calculate_working_hours_negative:
  "calculate_working_hours ex_store_long_break (combine (mk_date 2025 6 17) (mk_time 9 0)) 1
     (mk_date 2025 6 16) = (- 1 / 2, 0, 1, True)"
  by (simp add: hours_defs ex_store_defs)

text \<open>
  C3. The end instant of the day. Without an IN record all hours are zero and the day is
  not closed. With an IN record the hours are those up to the time of the OUT record
  (closed); without an OUT record, up to 19:15 of that day when the day is strictly before
  today and up to the current instant when the day is today, not closed in both cases.
\<close>

theorem calculate_working_hours_end_instant:
  "(day_record s e d IN = None \<longrightarrow> calculate_working_hours s now e d = (0, 0, 0, False)) \<and>
   (\<forall>in_record. day_record s e d IN = Some in_record \<longrightarrow>
      (\<forall>out. day_record s e d OUT = Some out \<longrightarrow>
         calculate_working_hours s now e d
           = hours_until in_record d (combine d (ar_time out)) True) \<and>
      (day_record s e d OUT = None \<and> date_less d (dt_date now) \<longrightarrow>
         calculate_working_hours s now e d
           = hours_until in_record d (combine d (mk_time 19 15)) False) \<and>
      (day_record s e d OUT = None \<and> d = dt_date now \<longrightarrow>
         calculate_working_hours s now e d = hours_until in_record d now False))"
  by (auto simp: calculate_working_hours_def session_end_def OUT_TIME_DEFAULT_def date_less_def)

theorem calculate_working_hours_end_instant_witness:
  "day_record ex_store_empty 1 (mk_date 2025 6 16) IN = None \<and>
   calculate_working_hours ex_store_empty (combine (mk_date 2025 6 16) (mk_time 12 0)) 1
     (mk_date 2025 6 16) = (0, 0, 0, False) \<and>
   day_record ex_store_closed 1 (mk_date 2025 6 16) IN = Some ex_in_plain \<and>
   day_record ex_store_closed 1 (mk_date 2025 6 16) OUT = Some ex_out_plain \<and>
   calculate_working_hours ex_store_closed (combine (mk_date 2025 6 16) (mk_time 23 0)) 1
     (mk_date 2025 6 16) = (37 / 4, 0, 0, True) \<and>
   day_record ex_store_open 1 (mk_date 2025 6 16) IN = Some ex_in_plain \<and>
   day_record ex_store_open 1 (mk_date 2025 6 16) OUT = None \<and>
   date_less (mk_date 2025 6 16) (dt_date (combine (mk_date 2025 6 17) (mk_time 8 0))) \<and>
   calculate_working_hours ex_store_open (combine (mk_date 2025 6 17) (mk_time 8 0)) 1
     (mk_date 2025 6 16) = (113 / 12, 0, 0, False) \<and>
   mk_date 2025 6 16 = dt_date (combine (mk_date 2025 6 16) (mk_time 12 20)) \<and>
   calculate_working_hours ex_store_open (combine (mk_date 2025 6 16) (mk_time 12 20)) 1
     (mk_date 2025 6 16) = (5 / 2, 0, 0, False)"
proof -
  have in0: "day_record ex_store_empty 1 (mk_date 2025 6 16) IN = None"
    by (simp add: day_record_def ex_store_defs)
  have in1: "day_record ex_store_closed 1 (mk_date 2025 6 16) IN = Some ex_in_plain"
    by (simp add: day_record_def comes_before_def date_less_def mk_date_def mk_time_def ex_store_defs)
  have out1: "day_record ex_store_closed 1 (mk_date 2025 6 16) OUT = Some ex_out_plain"
    by (simp add: day_record_def comes_before_def date_less_def mk_date_def mk_time_def ex_store_defs)
  have in2: "day_record ex_store_open 1 (mk_date 2025 6 16) IN = Some ex_in_plain"
    by (simp add: day_record_def comes_before_def date_less_def mk_date_def mk_time_def ex_store_defs)
  have out2: "day_record ex_store_open 1 (mk_date 2025 6 16) OUT = None"
    by (simp add: day_record_def comes_before_def date_less_def mk_date_def mk_time_def ex_store_defs)
  have past: "date_less (mk_date 2025 6 16) (dt_date (combine (mk_date 2025 6 17) (mk_time 8 0)))"
    by (simp add: date_less_def combine_def mk_date_def)
  have today: "mk_date 2025 6 16 = dt_date (combine (mk_date 2025 6 16) (mk_time 12 20))"
    by (simp add: combine_def)
  have h1: "hours_until ex_in_plain (mk_date 2025 6 16)
              (combine (mk_date 2025 6 16) (ar_time ex_out_plain)) True = (37 / 4, 0, 0, True)"
    by (simp add: hours_defs ex_store_defs)
  have h2: "hours_until ex_in_plain (mk_date 2025 6 16)
              (combine (mk_date 2025 6 16) (mk_time 19 15)) False = (113 / 12, 0, 0, False)"
    by (simp add: hours_defs ex_store_defs)
  have h3: "hours_until ex_in_plain (mk_date 2025 6 16)
              (combine (mk_date 2025 6 16) (mk_time 12 20)) False = (5 / 2, 0, 0, False)"
    by (simp add: hours_defs ex_store_defs)
  from calculate_working_hours_end_instant
         [of ex_store_empty 1 "mk_date 2025 6 16" "combine (mk_date 2025 6 16) (mk_time 12 0)"] in0
  have c0: "calculate_working_hours ex_store_empty (combine (mk_date 2025 6 16) (mk_time 12 0)) 1
              (mk_date 2025 6 16) = (0, 0, 0, False)"
    by blast
  from calculate_working_hours_end_instant
         [of ex_store_closed 1 "mk_date 2025 6 16" "combine (mk_date 2025 6 16) (mk_time 23 0)"]
       in1 out1 h1
  have c1: "calculate_working_hours ex_store_closed (combine (mk_date 2025 6 16) (mk_time 23 0)) 1
              (mk_date 2025 6 16) = (37 / 4, 0, 0, True)"
    by simp
  from calculate_working_hours_end_instant
         [of ex_store_open 1 "mk_date 2025 6 16" "combine (mk_date 2025 6 17) (mk_time 8 0)"]
       in2 out2 past h2
  have c2: "calculate_working_hours ex_store_open (combine (mk_date 2025 6 17) (mk_time 8 0)) 1
              (mk_date 2025 6 16) = (113 / 12, 0, 0, False)"
    by simp
  from calculate_working_hours_end_instant
         [of ex_store_open 1 "mk_date 2025 6 16" "combine (mk_date 2025 6 16) (mk_time 12 20)"]
       in2 out2 today h3
  have c3: "calculate_working_hours ex_store_open (combine (mk_date 2025 6 16) (mk_time 12 20)) 1
              (mk_date 2025 6 16) = (5 / 2, 0, 0, False)"
    by simp
  from in0 c0 in1 out1 c1 in2 out2 past c2 today c3 show ?thesis by blast
qed

section \<open>Properties of the period resolver\<close>

text \<open>
  C6, as stated: \<^verbatim>\<open>get_period_dates\<close> never raises, for every reference date. It does
  raise for the last days of year 9999, where the end of the week or the first day of the
  next month is no date any more: the week of 9999-12-31 (a Friday) would end on
  10000-01-02.
\<close>

theorem get_period_dates_raises_at_end_of_9999:
  "valid_date (mk_date 9999 12 31) \<and>
   get_period_dates (mk_date 9999 12 31) ''week'' = Inl OverflowError"
  by (simp add: get_period_dates_week_9999) (simp add: valid_date_def mk_date_sel dim_values)

text \<open>
  C6, amended. For every date \<open>d\<close>: period \<^verbatim>\<open>day\<close> and every unknown period give
  \<open>(d, d)\<close>; \<^verbatim>\<open>year\<close> gives January 1 and December 31 of the year of \<open>d\<close>;
  \<^verbatim>\<open>month\<close> gives the first and the last day of the month of \<open>d\<close> (leap years
  included) unless \<open>d\<close> is in December 9999, where \<^verbatim>\<open>OverflowError\<close> is raised;
  \<^verbatim>\<open>week\<close> gives the Monday on or before \<open>d\<close> and the Sunday six days later when
  \<open>d\<close> is on or before 9999-12-26 (ordinal 3652054), and raises \<^verbatim>\<open>OverflowError\<close>
  for the later dates. For 2025-06-17 the week is 2025-06-16 to 2025-06-22 and the month
  2025-06-01 to 2025-06-30.
\<close>

theorem get_period_dates_cases:
  "valid_date d \<Longrightarrow>
     get_period_dates d ''day'' = Inr (d, d) \<and>
     (period \<noteq> ''week'' \<and> period \<noteq> ''month'' \<and> period \<noteq> ''year''
        \<longrightarrow> get_period_dates d period = Inr (d, d)) \<and>
     (toordinal d \<le> 3652054 \<longrightarrow>
        (\<exists>start_date end_date.
           get_period_dates d ''week'' = Inr (start_date, end_date) \<and>
           valid_date start_date \<and> valid_date end_date \<and> weekday start_date = 0 \<and>
           toordinal start_date \<le> toordinal d \<and> toordinal d \<le> toordinal end_date \<and>
           toordinal end_date = toordinal start_date + 6)) \<and>
     (3652054 < toordinal d \<longrightarrow> get_period_dates d ''week'' = Inl OverflowError) \<and>
     (\<not> (year d = 9999 \<and> month d = 12) \<longrightarrow>
        get_period_dates d ''month''
          = Inr (mk_date (year d) (month d) 1,
                 mk_date (year d) (month d) (days_in_month (year d) (month d)))) \<and>
     (year d = 9999 \<and> month d = 12 \<longrightarrow> get_period_dates d ''month'' = Inl OverflowError) \<and>
     get_period_dates d ''year'' = Inr (mk_date (year d) 1 1, mk_date (year d) 12 31) \<and>
     get_period_dates (mk_date 2025 6 17) ''week'' = Inr (mk_date 2025 6 16, mk_date 2025 6 22) \<and>
     get_period_dates (mk_date 2025 6 17) ''month'' = Inr (mk_date 2025 6 1, mk_date 2025 6 30)"
proof -
  assume v: "valid_date d"
  have day: "get_period_dates d ''day'' = Inr (d, d)"
    by (simp add: get_period_dates_def)
  have other: "period \<noteq> ''week'' \<and> period \<noteq> ''month'' \<and> period \<noteq> ''year''
                 \<longrightarrow> get_period_dates d period = Inr (d, d)"
    by (simp add: get_period_dates_def)
  have v17: "valid_date (mk_date 2025 6 17)"
    by (simp add: valid_date_def mk_date_sel dim_values)
  have june: "get_period_dates (mk_date 2025 6 17) ''month''
                = Inr (mk_date 2025 6 1, mk_date 2025 6 30)"
    using get_period_dates_month [OF v17] by (simp add: mk_date_sel dim_values)
  from day other get_period_dates_week [OF v] get_period_dates_week_overflow [OF v]
       get_period_dates_month [OF v] get_period_dates_month_overflow [OF v]
       get_period_dates_year [OF v] get_period_dates_week_example june
  show ?thesis by blast
qed

theorem get_period_dates_cases_witness:
  "valid_date (mk_date 2025 6 17) \<and>
   ''quarter'' \<noteq> ''week'' \<and> ''quarter'' \<noteq> ''month'' \<and> ''quarter'' \<noteq> ''year'' \<and>
   get_period_dates (mk_date 2025 6 17) ''quarter'' = Inr (mk_date 2025 6 17, mk_date 2025 6 17) \<and>
   toordinal (mk_date 2025 6 17) \<le> 3652054 \<and>
   get_period_dates (mk_date 2025 6 17) ''week'' = Inr (mk_date 2025 6 16, mk_date 2025 6 22) \<and>
   \<not> (year (mk_date 2025 6 17) = 9999 \<and> month (mk_date 2025 6 17) = 12) \<and>
   get_period_dates (mk_date 2025 6 17) ''month'' = Inr (mk_date 2025 6 1, mk_date 2025 6 30) \<and>
   get_period_dates (mk_date 2025 6 17) ''year'' = Inr (mk_date 2025 1 1, mk_date 2025 12 31) \<and>
   valid_date (mk_date 9999 12 31) \<and>
   3652054 < toordinal (mk_date 9999 12 31) \<and>
   get_period_dates (mk_date 9999 12 31) ''week'' = Inl OverflowError \<and>
   year (mk_date 9999 12 31) = 9999 \<and> month (mk_date 9999 12 31) = 12 \<and>
   get_period_dates (mk_date 9999 12 31) ''month'' = Inl OverflowError"
proof -
  have v: "valid_date (mk_date 2025 6 17)"
    by (simp add: valid_date_def mk_date_sel dim_values)
  have o: "toordinal (mk_date 2025 6 17) \<le> 3652054"
    by (simp add: toordinal_def mk_date_sel days_before_year_def dbm_values is_leap_def)
  have n: "\<not> (year (mk_date 2025 6 17) = 9999 \<and> month (mk_date 2025 6 17) = 12)"
    by (simp add: mk_date_sel)
  have q: "''quarter'' \<noteq> ''week'' \<and> ''quarter'' \<noteq> ''month'' \<and> ''quarter'' \<noteq> ''year''"
    by simp
  have v': "valid_date (mk_date 9999 12 31)"
    by (simp add: valid_date_def mk_date_sel dim_values)
  have o': "3652054 < toordinal (mk_date 9999 12 31)"
    by (simp add: toordinal_def mk_date_sel days_before_year_def dbm_values is_leap_def)
  have n': "year (mk_date 9999 12 31) = 9999 \<and> month (mk_date 9999 12 31) = 12"
    by (simp add: mk_date_sel)
  from get_period_dates_cases [OF v, of "''quarter''"] q o n
  have a: "get_period_dates (mk_date 2025 6 17) ''quarter'' = Inr (mk_date 2025 6 17, mk_date 2025 6 17) \<and>
           get_period_dates (mk_date 2025 6 17) ''week'' = Inr (mk_date 2025 6 16, mk_date 2025 6 22) \<and>
           get_period_dates (mk_date 2025 6 17) ''month'' = Inr (mk_date 2025 6 1, mk_date 2025 6 30) \<and>
           get_period_dates (mk_date 2025 6 17) ''year'' = Inr (mk_date 2025 1 1, mk_date 2025 12 31)"
    by (simp add: mk_date_sel dim_values)
  from get_period_dates_cases [OF v', of "''day''"] o' n'
  have b: "get_period_dates (mk_date 9999 12 31) ''week'' = Inl OverflowError \<and>
           get_period_dates (mk_date 9999 12 31) ''month'' = Inl OverflowError"
    by simp
  from v q a o n v' o' n' b show ?thesis by blast
qed

section \<open>Properties of the state machine\<close>

text \<open>
  C2, as stated: when today's IN and OUT records both exist, nothing is changed, and
  \<^verbatim>\<open>Employee.last_seen\<close> in particular is left as it was. The view updates
  \<^verbatim>\<open>last_seen\<close> after every branch of the decision, also after this one: Jane Doe, in
  at 09:50 and out at 19:05, is seen again at 19:30, and her \<^verbatim>\<open>last_seen\<close> goes from
  \<^verbatim>\<open>None\<close> to 19:30.
\<close>

theorem already_checked_out_updates_last_seen:
  "map last_seen (employees ex_store_closed) = [None] \<and>
   map last_seen (employees (fst (mark_attendance_with_gesture ex_geodesic ex_store_closed
          (combine (mk_date 2025 6 16) (mk_time 19 30)) (Payload ex_payload))))
     = [Some (combine (mk_date 2025 6 16) (mk_time 19 30))]"
proof -
  let ?now = "combine (mk_date 2025 6 16) (mk_time 19 30)"
  have g: "geofence ex_geodesic (office ex_store_closed) (user_latitude ex_payload)
             (user_longitude ex_payload)
           = Proceed '' (No office location set by admin, location check skipped).''"
    by (simp add: geofence_def ex_store_closed_def)
  have m: "mark_attendance_with_gesture ex_geodesic ex_store_closed ?now (Payload ex_payload)
        = attendance_action ex_store_closed ?now ex_jane (req_emotional_state ex_payload)
            '' (No office location set by admin, location check skipped).''"
    using mark_recognized [OF ex_payload_simps(1) _ _ get_jane(1)] g by simp
  have "fst (mark_attendance_with_gesture ex_geodesic ex_store_closed ?now (Payload ex_payload))
        = save_last_seen ex_store_closed ex_jane ?now"
    unfolding m
    by (subst attendance_action_checked_out [where i = ex_in_plain and out = ex_out_plain])
       (simp_all add: ex_payload_simps combine_sel ex_day_records del: One_nat_def)
  then show ?thesis
    by (simp add: save_last_seen_simps) (simp add: ex_store_closed_def ex_jane_def)
qed


text \<open>
  C2, amended. When the recognized employee's IN and OUT records of today both exist, no
  attendance action is taken: the records (and the breaks on them) and the office setting
  stay as they are, and the response is informational (status \<open>Info\<close>, code 200, no
  attendance type), not an error. \<^verbatim>\<open>last_seen\<close> of the employee is set to the instant
  of the evaluation.
\<close>

theorem already_checked_out_is_informational:
  assumes "recognized_name data = Some name" and "name \<noteq> []" and "name \<noteq> ''Unknown''"
    and "get_employee s name = Found emp"
    and "geofence geodesic (office s) (user_latitude data) (user_longitude data) = Proceed suffix"
    and "day_record s (emp_pk emp) (dt_date now) IN = Some i"
    and "day_record s (emp_pk emp) (dt_date now) OUT = Some out"
  shows "(let (s', resp) = mark_attendance_with_gesture geodesic s now (Payload data) in
           records s' = records s \<and> office s' = office s \<and>
           employees s' = map (\<lambda>e. if emp_pk e = emp_pk emp then e\<lparr>last_seen := Some now\<rparr> else e)
                              (employees s) \<and>
           resp = \<lparr>status = Info, http_code = 200,
                   message = ''You have already checked out for today, '' @ emp_name emp @ ''.'',
                   resp_name = Some (emp_name emp), attendance_type = None,
                   is_late = Some False\<rparr>)"
proof -
  have "mark_attendance_with_gesture geodesic s now (Payload data)
        = attendance_action s now emp (req_emotional_state data) suffix"
    using mark_recognized [OF assms(1-4)] assms(5) by simp
  then show ?thesis
    by (simp add: attendance_action_checked_out [OF assms(6,7)] save_last_seen_simps)
qed

theorem already_checked_out_is_informational_witness:
  "recognized_name ex_payload = Some ''Jane Doe'' \<and> ''Jane Doe'' \<noteq> [] \<and>
   ''Jane Doe'' \<noteq> ''Unknown'' \<and>
   get_employee ex_store_closed ''Jane Doe'' = Found ex_jane \<and>
   geofence ex_geodesic (office ex_store_closed) (user_latitude ex_payload)
       (user_longitude ex_payload)
     = Proceed '' (No office location set by admin, location check skipped).'' \<and>
   day_record ex_store_closed (emp_pk ex_jane)
       (dt_date (combine (mk_date 2025 6 16) (mk_time 19 30))) IN = Some ex_in_plain \<and>
   day_record ex_store_closed (emp_pk ex_jane)
       (dt_date (combine (mk_date 2025 6 16) (mk_time 19 30))) OUT = Some ex_out_plain \<and>
   records (fst (mark_attendance_with_gesture ex_geodesic ex_store_closed
       (combine (mk_date 2025 6 16) (mk_time 19 30)) (Payload ex_payload)))
     = [ex_in_plain, ex_out_plain] \<and>
   status (snd (mark_attendance_with_gesture ex_geodesic ex_store_closed
       (combine (mk_date 2025 6 16) (mk_time 19 30)) (Payload ex_payload))) = Info"
proof -
  let ?now = "combine (mk_date 2025 6 16) (mk_time 19 30)"
  have n: "''Jane Doe'' \<noteq> []" "''Jane Doe'' \<noteq> ''Unknown''" by simp_all
  have g: "geofence ex_geodesic (office ex_store_closed) (user_latitude ex_payload)
             (user_longitude ex_payload)
           = Proceed '' (No office location set by admin, location check skipped).''"
    by (simp add: geofence_def ex_store_closed_def)
  have i: "day_record ex_store_closed (emp_pk ex_jane) (dt_date ?now) IN = Some ex_in_plain"
    by (simp add: ex_payload_simps combine_sel ex_day_records del: One_nat_def)
  have out: "day_record ex_store_closed (emp_pk ex_jane) (dt_date ?now) OUT = Some ex_out_plain"
    by (simp add: ex_payload_simps combine_sel ex_day_records del: One_nat_def)
  from already_checked_out_is_informational
         [OF ex_payload_simps(1) n get_jane(1) g i out]
  have "records (fst (mark_attendance_with_gesture ex_geodesic ex_store_closed ?now
                        (Payload ex_payload))) = [ex_in_plain, ex_out_plain] \<and>
        status (snd (mark_attendance_with_gesture ex_geodesic ex_store_closed ?now
                        (Payload ex_payload))) = Info"
    by (simp add: split_beta ex_store_closed_def)
  with ex_payload_simps(1) n get_jane(1) g i out show ?thesis by blast
qed



text \<open>
  C10. When the last element of today's break sequence has no \<^verbatim>\<open>break_in\<close>, an
  evaluation before 19:00 does not close that element, whatever its \<^verbatim>\<open>break_out\<close> is:
  the action is \<open>BREAK_IN\<close> and a fresh break is appended to the sequence.
\<close>

theorem null_break_in_is_not_closed:
  assumes "recognized_name data = Some name" and "name \<noteq> []" and "name \<noteq> ''Unknown''"
    and "get_employee s name = Found emp"
    and "geofence geodesic (office s) (user_latitude data) (user_longitude data) = Proceed suffix"
    and "day_record s (emp_pk emp) (dt_date now) IN = Some in_record"
    and "day_record s (emp_pk emp) (dt_date now) OUT = None"
    and "dt_time now < OUT_TIME_MIN"
    and "breaks in_record = Some bs" and "bs \<noteq> []" and "break_in (last bs) = None"
  shows "(let (s', resp) = mark_attendance_with_gesture geodesic s now (Payload data) in
           attendance_type resp = Some BREAK_IN \<and>
           records s' = map (\<lambda>r. if ar_pk r = ar_pk in_record
                                    then r\<lparr>breaks := Some (bs @ [new_break (dt_time now)])\<rparr>
                                    else r) (records s))"
proof -
  have hb: "handle_break in_record (dt_time now)
            = (bs @ [new_break (dt_time now)], BREAK_IN,
               capitalize (break_type (new_break (dt_time now))) @ '' Break In recorded.'')"
    using assms(9-11) by (simp add: handle_break_def last_break_def)
  have "mark_attendance_with_gesture geodesic s now (Payload data)
        = attendance_action s now emp (req_emotional_state data) suffix"
    using mark_recognized [OF assms(1-4)] assms(5) by simp
  then show ?thesis
    by (simp add: attendance_action_break [OF assms(6-8) hb] save_last_seen_simps save_breaks_simps)
qed

theorem null_break_in_is_not_closed_witness:
  "recognized_name ex_payload = Some ''Jane Doe'' \<and> ''Jane Doe'' \<noteq> [] \<and>
   ''Jane Doe'' \<noteq> ''Unknown'' \<and>
   get_employee ex_store_null_break ''Jane Doe'' = Found ex_jane \<and>
   geofence ex_geodesic (office ex_store_null_break) (user_latitude ex_payload)
       (user_longitude ex_payload)
     = Proceed '' (No office location set by admin, location check skipped).'' \<and>
   day_record ex_store_null_break (emp_pk ex_jane)
       (dt_date (combine (mk_date 2025 6 16) (mk_time 12 0))) IN = Some ex_in_null_break \<and>
   day_record ex_store_null_break (emp_pk ex_jane)
       (dt_date (combine (mk_date 2025 6 16) (mk_time 12 0))) OUT = None \<and>
   dt_time (combine (mk_date 2025 6 16) (mk_time 12 0)) < OUT_TIME_MIN \<and>
   breaks ex_in_null_break = Some [\<lparr>break_type = OTHER, break_in = None, break_out = None\<rparr>] \<and>
   break_in (last [\<lparr>break_type = OTHER, break_in = None, break_out = None\<rparr>]) = None \<and>
   attendance_type (snd (mark_attendance_with_gesture ex_geodesic ex_store_null_break
       (combine (mk_date 2025 6 16) (mk_time 12 0)) (Payload ex_payload))) = Some BREAK_IN \<and>
   map breaks (records (fst (mark_attendance_with_gesture ex_geodesic ex_store_null_break
       (combine (mk_date 2025 6 16) (mk_time 12 0)) (Payload ex_payload))))
     = [Some [\<lparr>break_type = OTHER, break_in = None, break_out = None\<rparr>,
              \<lparr>break_type = OTHER, break_in = Some (mk_time 12 0), break_out = None\<rparr>]]"
proof -
  let ?now = "combine (mk_date 2025 6 16) (mk_time 12 0)"
  let ?b = "\<lparr>break_type = OTHER, break_in = None, break_out = None\<rparr>"
  have n: "''Jane Doe'' \<noteq> []" "''Jane Doe'' \<noteq> ''Unknown''" by simp_all
  have g: "geofence ex_geodesic (office ex_store_null_break) (user_latitude ex_payload)
             (user_longitude ex_payload)
           = Proceed '' (No office location set by admin, location check skipped).''"
    by (simp add: geofence_def ex_store_null_break_def)
  have i: "day_record ex_store_null_break (emp_pk ex_jane) (dt_date ?now) IN = Some ex_in_null_break"
    by (simp add: ex_payload_simps combine_sel ex_day_records del: One_nat_def)
  have out: "day_record ex_store_null_break (emp_pk ex_jane) (dt_date ?now) OUT = None"
    by (simp add: ex_payload_simps combine_sel ex_day_records del: One_nat_def)
  have lt: "dt_time ?now < OUT_TIME_MIN"
    by (simp add: combine_sel OUT_TIME_MIN_def mk_time_def)
  have b: "breaks ex_in_null_break = Some [?b]" by (simp add: ex_in_null_break_def)
  have ne: "[?b] \<noteq> []" by simp
  have l: "break_in (last [?b]) = None" by simp
  have nb: "new_break (dt_time ?now)
            = \<lparr>break_type = OTHER, break_in = Some (mk_time 12 0), break_out = None\<rparr>"
    by (simp add: new_break_def is_lunch_time_def LUNCH_TIME_START_def combine_sel mk_time_def)
  let ?M = "mark_attendance_with_gesture ex_geodesic ex_store_null_break ?now
              (Payload ex_payload)"
  from null_break_in_is_not_closed [OF ex_payload_simps(1) n get_jane(3) g i out lt b ne l]
  have r0: "attendance_type (snd ?M) = Some BREAK_IN \<and>
            records (fst ?M)
              = map (\<lambda>r. if ar_pk r = ar_pk ex_in_null_break
                          then r\<lparr>breaks := Some ([?b] @ [new_break (dt_time ?now)])\<rparr> else r)
                    (records ex_store_null_break)"
    by (simp add: split_beta)
  have "map breaks (map (\<lambda>r. if ar_pk r = ar_pk ex_in_null_break
                          then r\<lparr>breaks := Some ([?b] @ [new_break (dt_time ?now)])\<rparr> else r)
                    (records ex_store_null_break))
        = [Some [?b, \<lparr>break_type = OTHER, break_in = Some (mk_time 12 0), break_out = None\<rparr>]]"
    unfolding nb by (simp add: ex_store_null_break_def)
  with r0 have r: "attendance_type (snd ?M) = Some BREAK_IN \<and>
           map breaks (records (fst ?M))
             = [Some [?b, \<lparr>break_type = OTHER, break_in = Some (mk_time 12 0), break_out = None\<rparr>]]"
    by simp
  from ex_payload_simps(1) n get_jane(3) g i out lt b l r show ?thesis by blast
qed


text \<open>
  C4. In every store that the state machine reaches from a store without records, each
  break sequence has at most one open break, and an open break is the last element of its
  sequence. An evaluation of a recognized employee who is in and not out, before 19:00,
  closes the last break of today's sequence when that break is open (action
  \<open>BREAK_OUT\<close>, \<^verbatim>\<open>break_out\<close> set to the time of the evaluation, nothing appended);
  otherwise no break of the sequence is open, and a new break is appended (action
  \<open>BREAK_IN\<close>).
\<close>

theorem at_most_one_open_break:
  assumes "reachable s"
  shows "(\<forall>r\<in>set (records s). \<forall>bs. breaks r = Some bs \<longrightarrow>
            length (filter is_open bs) \<le> 1 \<and>
            (\<forall>i<length bs. is_open (bs ! i) \<longrightarrow> Suc i = length bs)) \<and>
         (recognized_name data = Some name \<and> name \<noteq> [] \<and> name \<noteq> ''Unknown'' \<and>
          get_employee s name = Found emp \<and>
          geofence geodesic (office s) (user_latitude data) (user_longitude data) = Proceed suffix \<and>
          day_record s (emp_pk emp) (dt_date now) IN = Some in_record \<and>
          day_record s (emp_pk emp) (dt_date now) OUT = None \<and>
          dt_time now < OUT_TIME_MIN \<and>
          bs = (case breaks in_record of None \<Rightarrow> [] | Some bs \<Rightarrow> bs) \<and>
          mark_attendance_with_gesture geodesic s now (Payload data) = (s', resp) \<longrightarrow>
          (if bs \<noteq> [] \<and> is_open (last bs)
           then attendance_type resp = Some BREAK_OUT \<and>
                records s' =
                  map (\<lambda>r. if ar_pk r = ar_pk in_record
                            then r\<lparr>breaks := Some (butlast bs
                                       @ [(last bs)\<lparr>break_out := Some (dt_time now)\<rparr>])\<rparr>
                            else r) (records s)
           else filter is_open bs = [] \<and>
                attendance_type resp = Some BREAK_IN \<and>
                records s' =
                  map (\<lambda>r. if ar_pk r = ar_pk in_record
                            then r\<lparr>breaks := Some (bs @ [new_break (dt_time now)])\<rparr>
                            else r) (records s)))"
  using reachable_breaks_open [OF assms]
        reachable_break_toggle [OF assms, of data name emp geodesic suffix now in_record bs s' resp]
  by blast


theorem at_most_one_open_break_witness:
  "reachable ex_store_lunch \<and>
   ex_in_plain\<lparr>breaks := Some [\<lparr>break_type = LUNCH, break_in = Some (mk_time 13 45),
                                 break_out = None\<rparr>]\<rparr> \<in> set (records ex_store_lunch) \<and>
   length (filter is_open [\<lparr>break_type = LUNCH, break_in = Some (mk_time 13 45),
                            break_out = None\<rparr>]) \<le> 1 \<and>
   recognized_name ex_payload = Some ''Jane Doe'' \<and> ''Jane Doe'' \<noteq> [] \<and>
   ''Jane Doe'' \<noteq> ''Unknown'' \<and>
   get_employee ex_store_lunch ''Jane Doe''
     = Found (ex_jane\<lparr>last_seen := Some (combine (mk_date 2025 6 16) (mk_time 13 45))\<rparr>) \<and>
   geofence ex_geodesic (office ex_store_lunch) (user_latitude ex_payload)
       (user_longitude ex_payload)
     = Proceed '' (No office location set by admin, location check skipped).'' \<and>
   day_record ex_store_lunch 1 (dt_date (combine (mk_date 2025 6 16) (mk_time 14 10))) OUT = None \<and>
   dt_time (combine (mk_date 2025 6 16) (mk_time 14 10)) < OUT_TIME_MIN \<and>
   is_open (last [\<lparr>break_type = LUNCH, break_in = Some (mk_time 13 45), break_out = None\<rparr>]) \<and>
   attendance_type (snd (mark_attendance_with_gesture ex_geodesic ex_store_lunch
       (combine (mk_date 2025 6 16) (mk_time 14 10)) (Payload ex_payload))) = Some BREAK_OUT \<and>
   map breaks (records (fst (mark_attendance_with_gesture ex_geodesic ex_store_lunch
       (combine (mk_date 2025 6 16) (mk_time 14 10)) (Payload ex_payload))))
     = [Some [\<lparr>break_type = LUNCH, break_in = Some (mk_time 13 45),
               break_out = Some (mk_time 14 10)\<rparr>]]"
proof -
  let ?now = "combine (mk_date 2025 6 16) (mk_time 14 10)"
  let ?b = "\<lparr>break_type = LUNCH, break_in = Some (mk_time 13 45), break_out = None\<rparr>"
  let ?r = "ex_in_plain\<lparr>breaks := Some [?b]\<rparr>"
  let ?e = "ex_jane\<lparr>last_seen := Some (combine (mk_date 2025 6 16) (mk_time 13 45))\<rparr>"
  let ?M = "mark_attendance_with_gesture ex_geodesic ex_store_lunch ?now (Payload ex_payload)"
  have n: "''Jane Doe'' \<noteq> []" "''Jane Doe'' \<noteq> ''Unknown''" by simp_all
  have mem: "?r \<in> set (records ex_store_lunch)" by (simp add: ex_store_lunch_def)
  have br: "breaks ?r = Some [?b]" by simp
  have ge: "get_employee ex_store_lunch ''Jane Doe'' = Found ?e"
    by (simp add: get_employee_def ex_store_lunch_def ex_jane_def)
  have g: "geofence ex_geodesic (office ex_store_lunch) (user_latitude ex_payload)
             (user_longitude ex_payload)
           = Proceed '' (No office location set by admin, location check skipped).''"
    by (simp add: geofence_def ex_store_lunch_def)
  have pk: "emp_pk ?e = 1" by (simp add: ex_jane_def)
  have i: "day_record ex_store_lunch 1 (dt_date ?now) IN = Some ?r"
    by (simp add: day_record_def comes_before_def date_less_def mk_date_def mk_time_def
                  combine_def ex_store_defs)
  have out: "day_record ex_store_lunch 1 (dt_date ?now) OUT = None"
    by (simp add: day_record_def comes_before_def date_less_def mk_date_def mk_time_def
                  combine_def ex_store_defs)
  have lt: "dt_time ?now < OUT_TIME_MIN"
    by (simp add: combine_sel OUT_TIME_MIN_def mk_time_def)
  have bs: "[?b] = (case breaks ?r of None \<Rightarrow> [] | Some bs \<Rightarrow> bs)" by simp
  have m: "?M = (fst ?M, snd ?M)" by simp
  have op: "is_open (last [?b])" by (simp add: is_open_def)
  note t = at_most_one_open_break [OF ex_reachable(2),
             of ex_payload "''Jane Doe''" ?e ex_geodesic
                "'' (No office location set by admin, location check skipped).''"
                ?now ?r "[?b]" "fst ?M" "snd ?M"]
  from t mem br have c1: "length (filter is_open [?b]) \<le> 1" by blast
  from t ex_payload_simps(1) n ge g i out lt bs m op
  have c2: "attendance_type (snd ?M) = Some BREAK_OUT \<and>
            records (fst ?M)
              = map (\<lambda>r. if ar_pk r = ar_pk ?r
                          then r\<lparr>breaks := Some (butlast [?b]
                                     @ [(last [?b])\<lparr>break_out := Some (dt_time ?now)\<rparr>])\<rparr>
                          else r) (records ex_store_lunch)"
    unfolding pk by simp
  have "map breaks (map (\<lambda>r. if ar_pk r = ar_pk ?r
                          then r\<lparr>breaks := Some (butlast [?b]
                                     @ [(last [?b])\<lparr>break_out := Some (dt_time ?now)\<rparr>])\<rparr>
                          else r) (records ex_store_lunch))
        = [Some [\<lparr>break_type = LUNCH, break_in = Some (mk_time 13 45),
                  break_out = Some (mk_time 14 10)\<rparr>]]"
    by (simp add: ex_store_lunch_def combine_sel)
  with c2 have c3: "attendance_type (snd ?M) = Some BREAK_OUT \<and>
      map breaks (records (fst ?M))
        = [Some [\<lparr>break_type = LUNCH, break_in = Some (mk_time 13 45),
                  break_out = Some (mk_time 14 10)\<rparr>]]"
    by simp
  from ex_reachable(2) mem c1 ex_payload_simps(1) n ge g out lt op c3 show ?thesis by blast
qed


section \<open>Properties of the presence trend\<close>

text \<open>
  C7, as stated: in every bucket, \<open>present\<close> is the number of distinct employees with an
  \<^verbatim>\<open>IN\<close> record on a day of the bucket's sub-period. A pass of the loop checks the days
  counted from its own first date, as many as the month or year of that date is long, and
  for a range that starts inside a month these run into the next month: over 2025-01-31 to
  2025-03-15, monthly, the only \<^verbatim>\<open>IN\<close> record is of 2025-02-10, and the bucket 2025-01
  has \<open>present = 1\<close>.
\<close>

theorem presence_trend_counts_next_month:
  "map ar_date (records ex_store_february) = [mk_date 2025 2 10] \<and>
   get_attendance_percentage_trends ex_store_february (mk_date 2025 1 31) (mk_date 2025 3 15)
       ''monthly''
     = Some (Inr (Trends [[2025, 1], [2025, 2], [2025, 3]] [1, 1, 0] [0, 0, 1]))"
  by (simp add: ex_february_trends) (simp add: ex_store_february_def ex_in_february_def)


text \<open>
  C7, amended. For all dates of a range the call returns (a result or an error). When it
  gives its series (there is at least one employee), every bucket has
  \<open>present + absent = total_employees\<close> with \<open>absent = total_employees - present\<close>, and
  \<open>present\<close> is the number of distinct employees with an \<^verbatim>\<open>IN\<close> record on one of the
  days that the pass of the bucket checks: the days from the first date of the pass on, as
  many as the window is long, that are not after \<open>end_date\<close>. When the range starts on the
  first day of a sub-period (any day for daily buckets, the first of a month for monthly
  ones, January 1 for yearly ones), these are the days of the bucket's sub-period that are
  not after \<open>end_date\<close>.
\<close>

theorem presence_trend_buckets:
  assumes "valid_date start_date" and "valid_date end_date"
  shows "(\<exists>result. get_attendance_percentage_trends s start_date end_date interval = Some result) \<and>
         (get_attendance_percentage_trends s start_date end_date interval
            = Some (Inr (Trends labels present absent)) \<longrightarrow>
          length present = length labels \<and> length absent = length labels \<and>
          (\<forall>i<length labels.
             present ! i + absent ! i = int (length (employees s)) \<and>
             absent ! i = int (length (employees s)) - present ! i \<and>
             present ! i
               = int (card (ar_employee ` {r \<in> set (records s). ar_type r = IN \<and>
                              checked_day interval (pass_start interval start_date (labels ! i))
                                end_date (ar_date r)})) \<and>
             (aligned interval start_date \<longrightarrow>
                present ! i
                  = int (card (ar_employee ` {r \<in> set (records s). ar_type r = IN \<and>
                                 valid_date (ar_date r) \<and>
                                 bucket_key interval (ar_date r) = labels ! i \<and>
                                 date_le (ar_date r) end_date})))))"
proof (intro conjI impI)
  show "\<exists>result. get_attendance_percentage_trends s start_date end_date interval = Some result"
    by (rule get_trends_returns [OF assms])
next
  assume g: "get_attendance_percentage_trends s start_date end_date interval
               = Some (Inr (Trends labels present absent))"
  then obtain data where
    loop: "trends_loop s interval end_date [] start_date = Some (Inr data)" and
    l: "labels = sort (map fst data)" and
    p: "present = map (\<lambda>label. fst (lookup_counts data label)) labels" and
    a: "absent = map (\<lambda>label. snd (lookup_counts data label)) labels"
    by (auto simp: get_attendance_percentage_trends_def Let_def
             split: if_splits option.splits sum.splits)
  note inv = trends_loop_passes [OF loop assms(1)]
  show "length present = length labels" "length absent = length labels"
    by (simp_all add: p a)
  show "\<forall>i<length labels.
             present ! i + absent ! i = int (length (employees s)) \<and>
             absent ! i = int (length (employees s)) - present ! i \<and>
             present ! i
               = int (card (ar_employee ` {r \<in> set (records s). ar_type r = IN \<and>
                              checked_day interval (pass_start interval start_date (labels ! i))
                                end_date (ar_date r)})) \<and>
             (aligned interval start_date \<longrightarrow>
                present ! i
                  = int (card (ar_employee ` {r \<in> set (records s). ar_type r = IN \<and>
                                 valid_date (ar_date r) \<and>
                                 bucket_key interval (ar_date r) = labels ! i \<and>
                                 date_le (ar_date r) end_date})))"
  proof (intro allI impI)
    fix i assume i: "i < length labels"
    then have "labels ! i \<in> set labels" by simp
    then have "labels ! i \<in> fst ` set data" by (simp add: l)
    then obtain e where e: "e \<in> set data" "fst e = labels ! i" by auto
    from inv(2) e(1) obtain c where st: "is_start interval start_date c"
      and ec: "e = pass_entry s interval end_date c" by blast
    from ec e(2) have key: "labels ! i = bucket_key interval c" by (simp add: pass_entry_def)
    from e(1) ec have "(labels ! i, snd (pass_entry s interval end_date c)) \<in> set data"
      by (simp add: key pass_entry_def)
    from lookup_counts_entry [OF inv(1) this]
    have lc: "lookup_counts data (labels ! i) = snd (pass_entry s interval end_date c)" .
    let ?n = "int (card (ar_employee ` {r \<in> set (records s). ar_type r = IN \<and>
                           checked_day interval c end_date (ar_date r)}))"
    from i lc have pi: "present ! i = ?n" and ai: "absent ! i = int (length (employees s)) - ?n"
      by (simp_all add: p a pass_entry_def)
    have ps: "pass_start interval start_date (labels ! i) = c"
      unfolding key by (rule pass_start_of [OF st])
    from st have vc: "valid_date c" by (simp add: is_start_def)
    have al: "present ! i
                  = int (card (ar_employee ` {r \<in> set (records s). ar_type r = IN \<and>
                                 valid_date (ar_date r) \<and>
                                 bucket_key interval (ar_date r) = labels ! i \<and>
                                 date_le (ar_date r) end_date}))"
      if "aligned interval start_date"
      unfolding pi key
      by (simp only: aligned_window [OF vc is_start_aligned [OF that st]])
    from pi ai ps al
    show "present ! i + absent ! i = int (length (employees s)) \<and>
             absent ! i = int (length (employees s)) - present ! i \<and>
             present ! i
               = int (card (ar_employee ` {r \<in> set (records s). ar_type r = IN \<and>
                              checked_day interval (pass_start interval start_date (labels ! i))
                                end_date (ar_date r)})) \<and>
             (aligned interval start_date \<longrightarrow>
                present ! i
                  = int (card (ar_employee ` {r \<in> set (records s). ar_type r = IN \<and>
                                 valid_date (ar_date r) \<and>
                                 bucket_key interval (ar_date r) = labels ! i \<and>
                                 date_le (ar_date r) end_date})))"
      by simp
  qed
qed

theorem presence_trend_buckets_witness:
  "valid_date (mk_date 2025 6 16) \<and> valid_date (mk_date 2025 6 17) \<and>
   get_attendance_percentage_trends ex_store_closed (mk_date 2025 6 16) (mk_date 2025 6 17) ''daily''
     = Some (Inr (Trends [[2025, 6, 16], [2025, 6, 17]] [1, 0] [0, 1])) \<and>
   (0 :: nat) < length [[2025, 6, 16], [2025, 6, 17 :: int]] \<and>
   aligned ''daily'' (mk_date 2025 6 16) \<and>
   (1 :: int) + 0 = int (length (employees ex_store_closed)) \<and>
   (1 :: int)
     = int (card (ar_employee ` {r \<in> set (records ex_store_closed). ar_type r = IN \<and>
                    valid_date (ar_date r) \<and>
                    bucket_key ''daily'' (ar_date r) = [2025, 6, 16] \<and>
                    date_le (ar_date r) (mk_date 2025 6 17)})) \<and>
   valid_date (mk_date 2025 1 31) \<and> valid_date (mk_date 2025 3 15) \<and>
   get_attendance_percentage_trends ex_store_february (mk_date 2025 1 31) (mk_date 2025 3 15)
       ''monthly''
     = Some (Inr (Trends [[2025, 1], [2025, 2], [2025, 3]] [1, 1, 0] [0, 0, 1])) \<and>
   (1 :: int)
     = int (card (ar_employee ` {r \<in> set (records ex_store_february). ar_type r = IN \<and>
                    checked_day ''monthly'' (mk_date 2025 1 31) (mk_date 2025 3 15) (ar_date r)}))"
proof -
  have v: "valid_date (mk_date 2025 6 16)" "valid_date (mk_date 2025 6 17)"
    "valid_date (mk_date 2025 1 31)" "valid_date (mk_date 2025 3 15)"
    by (simp_all add: valid_date_def mk_date_sel dim_values)
  have al: "aligned ''daily'' (mk_date 2025 6 16)" by (simp add: aligned_def)
  have i: "(0 :: nat) < length [[2025, 6, 16], [2025, 6, 17 :: int]]"
    "(0 :: nat) < length [[2025, 1], [2025, 2], [2025, 3 :: int]]" by simp_all
  from presence_trend_buckets [OF v(1,2), of ex_store_closed "''daily''"
         "[[2025, 6, 16], [2025, 6, 17]]" "[1, 0]" "[0, 1]"] ex_trends
  have "\<forall>i<length [[2025, 6, 16], [2025, 6, 17 :: int]].
          [1, 0 :: int] ! i + [0, 1] ! i = int (length (employees ex_store_closed)) \<and>
          (aligned ''daily'' (mk_date 2025 6 16) \<longrightarrow>
             [1, 0 :: int] ! i
               = int (card (ar_employee ` {r \<in> set (records ex_store_closed). ar_type r = IN \<and>
                              valid_date (ar_date r) \<and>
                              bucket_key ''daily'' (ar_date r) = [[2025, 6, 16], [2025, 6, 17]] ! i \<and>
                              date_le (ar_date r) (mk_date 2025 6 17)})))"
    by blast
  with i(1) al
  have "[1, 0 :: int] ! 0 + [0, 1] ! 0 = int (length (employees ex_store_closed)) \<and>
        [1, 0 :: int] ! 0
          = int (card (ar_employee ` {r \<in> set (records ex_store_closed). ar_type r = IN \<and>
                         valid_date (ar_date r) \<and>
                         bucket_key ''daily'' (ar_date r) = [[2025, 6, 16], [2025, 6, 17]] ! 0 \<and>
                         date_le (ar_date r) (mk_date 2025 6 17)}))"
    by blast
  then have a: "(1 :: int) + 0 = int (length (employees ex_store_closed)) \<and>
        (1 :: int)
          = int (card (ar_employee ` {r \<in> set (records ex_store_closed). ar_type r = IN \<and>
                         valid_date (ar_date r) \<and>
                         bucket_key ''daily'' (ar_date r) = [2025, 6, 16] \<and>
                         date_le (ar_date r) (mk_date 2025 6 17)}))"
    by simp
  have ps: "pass_start ''monthly'' (mk_date 2025 1 31) ([[2025, 1], [2025, 2], [2025, 3]] ! 0)
            = mk_date 2025 1 31"
    by (simp add: pass_start_def bucket_key_def mk_date_sel)
  from presence_trend_buckets [OF v(3,4), of ex_store_february "''monthly''"
         "[[2025, 1], [2025, 2], [2025, 3]]" "[1, 1, 0]" "[0, 0, 1]"] ex_february_trends
  have "\<forall>i<length [[2025, 1], [2025, 2], [2025, 3 :: int]].
          [1, 1, 0 :: int] ! i
            = int (card (ar_employee ` {r \<in> set (records ex_store_february). ar_type r = IN \<and>
                           checked_day ''monthly''
                             (pass_start ''monthly'' (mk_date 2025 1 31)
                                ([[2025, 1], [2025, 2], [2025, 3]] ! i))
                             (mk_date 2025 3 15) (ar_date r)}))"
    by blast
  with i(2)
  have "[1, 1, 0 :: int] ! 0
            = int (card (ar_employee ` {r \<in> set (records ex_store_february). ar_type r = IN \<and>
                           checked_day ''monthly''
                             (pass_start ''monthly'' (mk_date 2025 1 31)
                                ([[2025, 1], [2025, 2], [2025, 3]] ! 0))
                             (mk_date 2025 3 15) (ar_date r)}))"
    by blast
  then have b: "(1 :: int)
            = int (card (ar_employee ` {r \<in> set (records ex_store_february). ar_type r = IN \<and>
                           checked_day ''monthly'' (mk_date 2025 1 31) (mk_date 2025 3 15)
                             (ar_date r)}))"
    unfolding ps by simp
  from v ex_trends i(1) al a ex_february_trends b show ?thesis by blast
qed


section \<open>Properties of the summary and of the report sort\<close>

text \<open>
  C8. The claim is that a threshold that is set, also a threshold of 0, excludes every
  record whose hours reach it. The code tests the threshold for truth before it compares,
  so a threshold of 0 filters nothing: Jane Doe's closed day of 9.25 hours stays in the
  summary for the threshold 0. (For every other number the records under the threshold
  are kept and the others dropped, see \<open>summary_rows_threshold\<close>.)
\<close>

theorem threshold_zero_filters_nothing:
  "fst (calculate_working_hours ex_store_closed (combine (mk_date 2025 6 17) (mk_time 9 0)) 1
          (mk_date 2025 6 16)) = 37 / 4 \<and>
   map row_employee_id
     (get_filtered_attendance_summary ex_store_closed (combine (mk_date 2025 6 17) (mk_time 9 0))
        (Some (mk_date 2025 6 16)) (Some (mk_date 2025 6 16)) [] (Some 0)) = [''E001'']"
  by (simp add: get_filtered_attendance_summary_def records_with_employees_def employee_of_def
        date_le_def hours_defs ex_store_defs)

text \<open>
  C9. The claim is that the sort never raises and that placeholders sort to the minimum.
  The key function reads every value but \<^verbatim>\<open>''\<close> and \<^verbatim>\<open>'-'\<close> with \<^verbatim>\<open>strptime\<close> when the
  sort key contains \<^verbatim>\<open>time\<close>, outside any \<^verbatim>\<open>try\<close>: the row of an open session of today
  has the \<^verbatim>\<open>out_time\<close> \<^verbatim>\<open>'In progress...'\<close>, and sorting by \<^verbatim>\<open>out_time\<close> raises
  \<^verbatim>\<open>ValueError\<close>, for both directions. (So does sorting by \<^verbatim>\<open>overtime_hours\<close>, a name
  that contains \<^verbatim>\<open>time\<close>, see \<open>sort_by_overtime_hours_raises\<close>.)
\<close>

theorem sort_by_out_time_raises:
  "rep_out_time ex_row_open = ''In progress...'' \<and>
   sorted_records py_float ''out_time'' sort_order [ex_row_open] = Inl ValueError"
  by (simp add: ex_out_time sorted_records_def dynamic_sort_key_def sort_by_map_def and_then_def
                strptime_in_progress)

end
